theory Spec2Isabelle
  imports Main "HOL-Library.Sublist" "HOL-Library.Char_ord" "HOL-Library.List_Lexorder"
    "HOL-Library.AList"
begin

section \<open>Python values\<close>

text \<open>
  The values that \<^verbatim>\<open>json.loads\<close> produces and the program passes around. A Python dict
  keeps its insertion order, so an object is an association list; a lookup takes the
  first binding of a key. Numbers are the integers: the program writes no float.
\<close>

datatype json = JNull | JBool bool | JInt int | JStr string
  | JArr "json list" | JObj "(string \<times> json) list"

text \<open>The exceptions that the modelled code can raise.\<close>

datatype exn = OSError | AttributeError | TypeError | KeyError | ValueError

text \<open>
  Python's \<^verbatim>\<open>==\<close> on these values ignores the order of the keys of a dict and
  identifies \<^verbatim>\<open>True\<close> with \<^verbatim>\<open>1\<close> and \<^verbatim>\<open>False\<close> with \<^verbatim>\<open>0\<close>. \<open>norm\<close> maps a value to a
  representative of its class; two values are equal for Python when their
  representatives are the same.
\<close>

primrec norm :: "json \<Rightarrow> json" where
  "norm JNull = JNull"
| "norm (JBool b) = JInt (if b then 1 else 0)"
| "norm (JInt n) = JInt n"
| "norm (JStr s) = JStr s"
| "norm (JArr xs) = JArr (map norm xs)"
| "norm (JObj kvs) = JObj (sort_key fst (AList.clearjunk (map (map_prod id norm) kvs)))"

definition py_eq :: "json \<Rightarrow> json \<Rightarrow> bool" where
  "py_eq a b = (norm a = norm b)"

text \<open>Truthiness: \<^verbatim>\<open>if x:\<close>.\<close>

fun truthy :: "json \<Rightarrow> bool" where
  "truthy JNull = False"
| "truthy (JBool b) = b"
| "truthy (JInt n) = (n \<noteq> 0)"
| "truthy (JStr s) = (s \<noteq> [])"
| "truthy (JArr xs) = (xs \<noteq> [])"
| "truthy (JObj kvs) = (kvs \<noteq> [])"

text \<open>\<^verbatim>\<open>d.get(k, default)\<close>: only a dict has the method.\<close>

fun dict_get :: "json \<Rightarrow> string \<Rightarrow> json \<Rightarrow> exn + json" where
  "dict_get (JObj kvs) k d = Inr (case map_of kvs k of Some v \<Rightarrow> v | None \<Rightarrow> d)"
| "dict_get _ k d = Inl AttributeError"

text \<open>Sequencing of computations that may raise.\<close>

definition bind_exn :: "exn + 'a \<Rightarrow> ('a \<Rightarrow> exn + 'b) \<Rightarrow> exn + 'b" where
  "bind_exn m f = (case m of Inl e \<Rightarrow> Inl e | Inr x \<Rightarrow> f x)"

text \<open>A \<^verbatim>\<open>datetime\<close> is a point in time, in seconds, without or with a time zone.\<close>

datatype datetime = Naive int | Aware int

text \<open>
  The library functions the program calls and this development does not define:
  \<^verbatim>\<open>json.loads\<close> (\<open>None\<close> is \<^verbatim>\<open>JSONDecodeError\<close>), \<^verbatim>\<open>json.dumps\<close>, \<^verbatim>\<open>json.dump\<close> with
  \<^verbatim>\<open>indent=4\<close> of a value and of a dict whose keys are any hashable values,
  \<^verbatim>\<open>os.path.abspath\<close>, the order in which \<^verbatim>\<open>list(s)\<close> enumerates a set whose
  elements are given in insertion order, \<^verbatim>\<open>datetime.fromisoformat\<close> (\<open>None\<close> is
  \<^verbatim>\<open>ValueError\<close>), \<^verbatim>\<open>t - relativedelta(years=n)\<close>, which raises when the year leaves the
  range of \<^verbatim>\<open>datetime\<close>, and \<^verbatim>\<open>t.isoformat()\<close> on the time of the clock.
\<close>

record pylib =
  loads :: "string \<Rightarrow> json option"
  dumps :: "json \<Rightarrow> string"
  dumps_indent :: "json \<Rightarrow> string"
  dump_dict :: "(json \<times> json) list \<Rightarrow> string"
  abspath :: "string \<Rightarrow> string"
  set_order :: "json list \<Rightarrow> json list"
  fromisoformat :: "string \<Rightarrow> datetime option"
  minus_years :: "int \<Rightarrow> int \<Rightarrow> exn + int"
  isoformat :: "int \<Rightarrow> string"

section \<open>Path validation (file_monitoring.py)\<close>

definition forbidden_patterns :: "string list" where
  "forbidden_patterns =
     [''/etc/shadow'', ''/etc/passwd'', ''/root/.ssh'', ''/proc'', ''/sys'']"

text \<open>\<^verbatim>\<open>any(abs_path.startswith(d) for d in ds)\<close>, and the loop over the forbidden patterns.\<close>

fun any_startswith :: "string \<Rightarrow> string list \<Rightarrow> bool" where
  "any_startswith abs_path [] = False"
| "any_startswith abs_path (d # ds) = (if prefix d abs_path then True else any_startswith abs_path ds)"

text \<open>\<open>allowed_dirs\<close> is \<open>None\<close> for Python's \<^verbatim>\<open>None\<close>; \<^verbatim>\<open>if allowed_dirs:\<close> is false for
  \<^verbatim>\<open>None\<close> and for the empty list.\<close>

definition validate_path :: "'a pylib_scheme \<Rightarrow> string \<Rightarrow> string list option \<Rightarrow> bool" where
  "validate_path L path allowed_dirs =
     (let abs_path = abspath L path in
      if (case allowed_dirs of None \<Rightarrow> False
          | Some ds \<Rightarrow> ds \<noteq> [] \<and> \<not> any_startswith abs_path ds) then False
      else if any_startswith abs_path forbidden_patterns then False
      else True)"

section \<open>Metadata comparison (FileWatcher.py)\<close>

text \<open>
  The loop \<^verbatim>\<open>for key in old_meta\<close> over the keys of the old metadata, with the dict
  \<open>changes\<close> as accumulator. \<^verbatim>\<open>d.get(key)\<close> is \<^verbatim>\<open>None\<close> for a missing key.
\<close>

fun compare_keys :: "string list \<Rightarrow> json \<Rightarrow> json \<Rightarrow> (string \<times> json) list
    \<Rightarrow> exn + (string \<times> json) list" where
  "compare_keys [] old_meta new_meta changes = Inr changes"
| "compare_keys (key # keys) old_meta new_meta changes =
     bind_exn (dict_get old_meta key JNull) (\<lambda>old_value.
     bind_exn (dict_get new_meta key JNull) (\<lambda>new_value.
       compare_keys keys old_meta new_meta
         (if \<not> py_eq old_value new_value
          then AList.update key (JObj [(''before'', old_value), (''after'', new_value)]) changes
          else changes)))"

text \<open>
  Iterating over a value that is not a dict: an empty list or string gives no
  iteration, a non-empty one fails at \<^verbatim>\<open>old_meta.get\<close>, and the other values are not
  iterable.
\<close>

definition compare_metadata :: "json \<Rightarrow> json \<Rightarrow> exn + (string \<times> json) list" where
  "compare_metadata old new =
     bind_exn (dict_get old ''metadata'' (JObj [])) (\<lambda>old_meta.
     bind_exn (dict_get new ''metadata'' (JObj [])) (\<lambda>new_meta.
       case old_meta of
         JObj kvs \<Rightarrow> compare_keys (map fst (AList.clearjunk kvs)) old_meta new_meta []
       | JArr xs \<Rightarrow> if xs = [] then Inr [] else Inl AttributeError
       | JStr s \<Rightarrow> if s = [] then Inr [] else Inl AttributeError
       | _ \<Rightarrow> Inl TypeError))"

text \<open>The value of a field as \<^verbatim>\<open>.get\<close> reads it, and the entry of a changed field.\<close>

definition meta_field :: "(string \<times> json) list \<Rightarrow> string \<Rightarrow> json" where
  "meta_field kvs k = (case map_of kvs k of Some v \<Rightarrow> v | None \<Rightarrow> JNull)"

definition change_entry :: "(string \<times> json) list \<Rightarrow> (string \<times> json) list \<Rightarrow> string \<Rightarrow> json" where
  "change_entry om nm k = JObj [(''before'', meta_field om k), (''after'', meta_field nm k)]"

section \<open>Text, lines and whitespace\<close>

definition LF :: char where "LF = CHR 0x0A"
definition CR :: char where "CR = CHR 0x0D"

text \<open>\<^verbatim>\<open>str.strip()\<close> on ASCII text: the whitespace characters are tab, line feed,
  vertical tab, form feed, carriage return, the separators 0x1C to 0x1F and the space.\<close>

definition is_space :: "char \<Rightarrow> bool" where
  "is_space c = (of_char c \<in> {9, 10, 11, 12, 13, 28, 29, 30, 31, 32 :: nat})"

definition strip :: "string \<Rightarrow> string" where
  "strip s = rev (dropWhile is_space (rev (dropWhile is_space s)))"

text \<open>Iteration over a file opened in text mode: the lines with their terminator, a
  carriage return or a carriage return and line feed read as one line feed.\<close>

fun text_lines_from :: "string \<Rightarrow> string \<Rightarrow> string list" where
  "text_lines_from cur [] = (if cur = [] then [] else [cur])"
| "text_lines_from cur [c] =
     (if c = LF \<or> c = CR then [cur @ [LF]] else [cur @ [c]])"
| "text_lines_from cur (c # d # cs) =
     (if c = LF then (cur @ [LF]) # text_lines_from [] (d # cs)
      else if c = CR then
        (if d = LF then (cur @ [LF]) # text_lines_from [] cs
         else (cur @ [LF]) # text_lines_from [] (d # cs))
      else text_lines_from (cur @ [c]) (d # cs))"

definition text_lines :: "string \<Rightarrow> string list" where
  "text_lines s = text_lines_from [] s"

text \<open>What the loop \<^verbatim>\<open>for line in lines: f.write(line + "\n")\<close> writes in all.\<close>

definition unlines :: "string list \<Rightarrow> string" where
  "unlines ls = concat (map (\<lambda>l. l @ [LF]) ls)"


section \<open>The file system and the process\<close>

text \<open>
  Every call into the operating system can fail with \<^verbatim>\<open>OSError\<close>. Which calls fail is
  decided by a schedule that the state carries: each call consumes the head of the
  schedule, and an empty schedule means success. \<open>Fails k\<close> carries how far a read or a
  write got (lines delivered, characters written) before the error.
\<close>

datatype fault = Succeeds | Fails nat

text \<open>The calls that change the file system; \<^verbatim>\<open>os.fsync\<close> is in the vocabulary, the
  program does not call it.\<close>

datatype sysop = OpOpenW string | OpWrite string string | OpClose string
  | OpChmod string | OpReplace string string | OpRemove string | OpFsync string

text \<open>What \<^verbatim>\<open>os.stat\<close>, the user and group databases, \<^verbatim>\<open>stat.filemode\<close> and the
  SHA-256 of the content give for a monitored path.\<close>

datatype file_kind = KFile | KDirectory | KOther

record fstat =
  st_kind :: file_kind
  st_size :: int
  st_owner :: string
  st_group :: string
  st_mode :: string
  st_mtime :: string
  st_sha256 :: "string option"

text \<open>The messages the program prints.\<close>

datatype msg = MsgDeleted int | MsgErrCleaningHistory | MsgErrSavingHistory
  | MsgErrRemoving | MsgErrUpdatingIndex | MsgErrUpdatingConf | MsgErrRegenerating
  | MsgErrUpdatingState | MsgEventDetected string string | MsgNoBaseline

text \<open>
  \<open>files\<close> holds the content of the program's own data files (baseline store, event
  index, history log and their temporary siblings), \<open>stats\<close> what the monitored paths
  look like; \<open>trace\<close> records each attempted call that changes the file system with
  its outcome; \<open>alerts\<close> records what the alert transports were asked to send.
\<close>

record world =
  files :: "string \<Rightarrow> string option"
  stats :: "string \<Rightarrow> fstat option"
  faults :: "fault list"
  trace :: "(sysop \<times> bool) list"
  stdout :: "msg list"
  alerts :: "(string \<times> json) list"
  clock :: int

definition take_fault :: "world \<Rightarrow> fault \<times> world" where
  "take_fault w = (case faults w of [] \<Rightarrow> (Succeeds, w) | f # fs \<Rightarrow> (f, w\<lparr>faults := fs\<rparr>))"

definition log_op :: "sysop \<Rightarrow> bool \<Rightarrow> world \<Rightarrow> world" where
  "log_op op ok w = w\<lparr>trace := trace w @ [(op, ok)]\<rparr>"

definition print :: "msg \<Rightarrow> world \<Rightarrow> world" where
  "print m w = w\<lparr>stdout := stdout w @ [m]\<rparr>"

text \<open>\<^verbatim>\<open>os.path.exists\<close> on a data file, and on a monitored path.\<close>

definition file_exists :: "world \<Rightarrow> string \<Rightarrow> bool" where
  "file_exists w p = (files w p \<noteq> None)"

definition path_exists :: "world \<Rightarrow> string \<Rightarrow> bool" where
  "path_exists w p = (stats w p \<noteq> None)"

definition content_of :: "world \<Rightarrow> string \<Rightarrow> string" where
  "content_of w p = (case files w p of Some c \<Rightarrow> c | None \<Rightarrow> [])"

text \<open>\<^verbatim>\<open>open(p, "w")\<close> creates or truncates the file.\<close>

definition sys_open_w :: "string \<Rightarrow> world \<Rightarrow> bool \<times> world" where
  "sys_open_w p w = (case take_fault w of
       (Succeeds, w1) \<Rightarrow> (True, log_op (OpOpenW p) True (w1\<lparr>files := (files w1)(p \<mapsto> [])\<rparr>))
     | (Fails k, w1) \<Rightarrow> (False, log_op (OpOpenW p) False w1))"

definition sys_write :: "string \<Rightarrow> string \<Rightarrow> world \<Rightarrow> bool \<times> world" where
  "sys_write p s w = (case take_fault w of
       (Succeeds, w1) \<Rightarrow>
         (True, log_op (OpWrite p s) True (w1\<lparr>files := (files w1)(p \<mapsto> content_of w1 p @ s)\<rparr>))
     | (Fails k, w1) \<Rightarrow>
         (False, log_op (OpWrite p s) False
            (w1\<lparr>files := (files w1)(p \<mapsto> content_of w1 p @ take k s)\<rparr>)))"

definition sys_close :: "string \<Rightarrow> world \<Rightarrow> bool \<times> world" where
  "sys_close p w = (case take_fault w of
       (Succeeds, w1) \<Rightarrow> (True, log_op (OpClose p) True w1)
     | (Fails k, w1) \<Rightarrow> (False, log_op (OpClose p) False w1))"

definition sys_chmod :: "string \<Rightarrow> world \<Rightarrow> bool \<times> world" where
  "sys_chmod p w = (case take_fault w of
       (Succeeds, w1) \<Rightarrow>
         (if file_exists w1 p then (True, log_op (OpChmod p) True w1)
          else (False, log_op (OpChmod p) False w1))
     | (Fails k, w1) \<Rightarrow> (False, log_op (OpChmod p) False w1))"

text \<open>\<^verbatim>\<open>os.replace\<close>: the destination has the old content or the new one, never a part.\<close>

definition sys_replace :: "string \<Rightarrow> string \<Rightarrow> world \<Rightarrow> bool \<times> world" where
  "sys_replace src dst w = (case take_fault w of
       (Succeeds, w1) \<Rightarrow>
         (case files w1 src of
            Some c \<Rightarrow> (True, log_op (OpReplace src dst) True
                         (w1\<lparr>files := ((files w1)(src := None))(dst \<mapsto> c)\<rparr>))
          | None \<Rightarrow> (False, log_op (OpReplace src dst) False w1))
     | (Fails k, w1) \<Rightarrow> (False, log_op (OpReplace src dst) False w1))"

definition sys_remove :: "string \<Rightarrow> world \<Rightarrow> bool \<times> world" where
  "sys_remove p w = (case take_fault w of
       (Succeeds, w1) \<Rightarrow>
         (if file_exists w1 p then (True, log_op (OpRemove p) True (w1\<lparr>files := (files w1)(p := None)\<rparr>))
          else (False, log_op (OpRemove p) False w1))
     | (Fails k, w1) \<Rightarrow> (False, log_op (OpRemove p) False w1))"

text \<open>
  \<^verbatim>\<open>with open(p, "r") as f: for line in f\<close>: the lines delivered, and whether the
  reading went through without \<^verbatim>\<open>OSError\<close>.
\<close>

definition sys_read_lines :: "string \<Rightarrow> world \<Rightarrow> (string list \<times> bool) \<times> world" where
  "sys_read_lines p w = (case take_fault w of
       (Succeeds, w1) \<Rightarrow>
         (case files w1 p of Some c \<Rightarrow> ((text_lines c, True), w1) | None \<Rightarrow> (([], False), w1))
     | (Fails k, w1) \<Rightarrow>
         (case files w1 p of Some c \<Rightarrow> ((take k (text_lines c), False), w1)
          | None \<Rightarrow> (([], False), w1)))"

text \<open>\<^verbatim>\<open>with open(p, "r") as f: f.read()\<close>, as \<^verbatim>\<open>json.load\<close> does.\<close>

definition sys_read_all :: "string \<Rightarrow> world \<Rightarrow> string option \<times> world" where
  "sys_read_all p w = (case take_fault w of
       (Succeeds, w1) \<Rightarrow> (files w1 p, w1)
     | (Fails k, w1) \<Rightarrow> (None, w1))"

section \<open>The atomic write (logger.py)\<close>

text \<open>The loop that writes the lines to the open temporary file.\<close>

fun write_lines :: "string \<Rightarrow> string list \<Rightarrow> world \<Rightarrow> bool \<times> world" where
  "write_lines p [] w = (True, w)"
| "write_lines p (l # ls) w =
     (case sys_write p (l @ [LF]) w of
        (False, w1) \<Rightarrow> (False, w1)
      | (True, w1) \<Rightarrow> write_lines p ls w1)"

text \<open>The handler of \<^verbatim>\<open>OSError\<close>: remove the temporary file if it is there, ignoring a
  failure of the removal.\<close>

definition cleanup_tmp :: "string \<Rightarrow> world \<Rightarrow> world" where
  "cleanup_tmp tmp w = (if file_exists w tmp then snd (sys_remove tmp w) else w)"

text \<open>\<^verbatim>\<open>os.chmod(temp_file, 0o600); os.replace(temp_file, file)\<close> and the handler.\<close>

definition commit_tmp :: "string \<Rightarrow> string \<Rightarrow> world \<Rightarrow> bool \<times> world" where
  "commit_tmp tmp file w =
     (case sys_chmod tmp w of
        (False, w1) \<Rightarrow> (False, cleanup_tmp tmp w1)
      | (True, w1) \<Rightarrow>
          (case sys_replace tmp file w1 of
             (False, w2) \<Rightarrow> (False, cleanup_tmp tmp w2)
           | (True, w2) \<Rightarrow> (True, w2)))"

text \<open>
  The block that every rewrite of the baseline store ends with: open the temporary
  sibling, write the lines, close, \<^verbatim>\<open>chmod\<close>, \<^verbatim>\<open>os.replace\<close>; \<open>False\<close> when an \<^verbatim>\<open>OSError\<close>
  was caught.
\<close>

definition atomic_write_lines :: "string \<Rightarrow> string list \<Rightarrow> world \<Rightarrow> bool \<times> world" where
  "atomic_write_lines file lines w =
     (let tmp = file @ ''.tmp'' in
      case sys_open_w tmp w of
        (False, w1) \<Rightarrow> (False, cleanup_tmp tmp w1)
      | (True, w1) \<Rightarrow>
          (case write_lines tmp lines w1 of
             (False, w2) \<Rightarrow> (False, cleanup_tmp tmp (snd (sys_close tmp w2)))
           | (True, w2) \<Rightarrow>
               (case sys_close tmp w2 of
                  (False, w3) \<Rightarrow> (False, cleanup_tmp tmp w3)
                | (True, w3) \<Rightarrow> commit_tmp tmp file w3)))"

text \<open>The same block around \<^verbatim>\<open>json.dump(obj, f, indent=4)\<close>, of which \<open>text\<close> is the
  output.\<close>

definition atomic_write_text :: "string \<Rightarrow> string \<Rightarrow> world \<Rightarrow> bool \<times> world" where
  "atomic_write_text file text w =
     (let tmp = file @ ''.tmp'' in
      case sys_open_w tmp w of
        (False, w1) \<Rightarrow> (False, cleanup_tmp tmp w1)
      | (True, w1) \<Rightarrow>
          (case sys_write tmp text w1 of
             (False, w2) \<Rightarrow> (False, cleanup_tmp tmp (snd (sys_close tmp w2)))
           | (True, w2) \<Rightarrow>
               (case sys_close tmp w2 of
                  (False, w3) \<Rightarrow> (False, cleanup_tmp tmp w3)
                | (True, w3) \<Rightarrow> commit_tmp tmp file w3)))"

section \<open>Records of the baseline store (logger.py, file_monitoring.py)\<close>

text \<open>\<^verbatim>\<open>data.get("file", {}).get("path")\<close>.\<close>

definition record_path :: "json \<Rightarrow> exn + json" where
  "record_path data = bind_exn (dict_get data ''file'' (JObj [])) (\<lambda>f. dict_get f ''path'' JNull)"

text \<open>\<^verbatim>\<open>d[k] = v\<close> on a value: only a dict takes a string key.\<close>

fun dict_set :: "json \<Rightarrow> string \<Rightarrow> json \<Rightarrow> exn + json" where
  "dict_set (JObj kvs) k v = Inr (JObj (AList.update k v kvs))"
| "dict_set _ k v = Inl TypeError"

text \<open>Dicts of the program whose keys are values read from the store: a list or a
  dict is not hashable; an existing key keeps its place.\<close>

fun hashable :: "json \<Rightarrow> bool" where
  "hashable (JArr xs) = False"
| "hashable (JObj kvs) = False"
| "hashable _ = True"

fun py_dict_put :: "(json \<times> json) list \<Rightarrow> json \<Rightarrow> json \<Rightarrow> (json \<times> json) list" where
  "py_dict_put [] k v = [(k, v)]"
| "py_dict_put ((k', v') # d) k v =
     (if py_eq k' k then (k', v) # d else (k', v') # py_dict_put d k v)"

definition py_dict_set :: "(json \<times> json) list \<Rightarrow> json \<Rightarrow> json \<Rightarrow> exn + (json \<times> json) list" where
  "py_dict_set d k v = (if hashable k then Inr (py_dict_put d k v) else Inl TypeError)"

fun py_dict_lookup :: "(json \<times> json) list \<Rightarrow> json \<Rightarrow> json option" where
  "py_dict_lookup [] k = None"
| "py_dict_lookup ((k', v') # d) k = (if py_eq k' k then Some v' else py_dict_lookup d k)"

definition py_dict_pop :: "(json \<times> json) list \<Rightarrow> json \<Rightarrow> (json \<times> json) list" where
  "py_dict_pop d k = filter (\<lambda>(k', v'). \<not> py_eq k' k) d"

text \<open>\<^verbatim>\<open>os.path.basename\<close>.\<close>

definition basename :: "string \<Rightarrow> string" where
  "basename p = rev (takeWhile (\<lambda>c. c \<noteq> CHR ''/'') (rev p))"

definition kind_name :: "file_kind \<Rightarrow> string" where
  "kind_name k = (case k of KFile \<Rightarrow> ''file'' | KDirectory \<Rightarrow> ''directory'' | KOther \<Rightarrow> ''other'')"

text \<open>\<open>format_json\<close> on what \<open>load_file_info\<close> collected; the checksum is computed for a
  regular file only and is \<^verbatim>\<open>None\<close> when the content cannot be read.\<close>

definition format_json :: "string \<Rightarrow> fstat \<Rightarrow> json" where
  "format_json path st =
     JObj [(''file'', JObj [(''name'', JStr (basename path)), (''path'', JStr path),
                            (''type'', JStr (kind_name (st_kind st)))]),
           (''metadata'', JObj [(''size'', JInt (st_size st)),
                                (''permissions'', JStr (st_mode st)),
                                (''owner'', JStr (st_owner st)),
                                (''group'', JStr (st_group st)),
                                (''last_modified'', JStr (st_mtime st)),
                                (''checksum'',
                                   (if st_kind st = KFile
                                    then (case st_sha256 st of Some h \<Rightarrow> JStr h | None \<Rightarrow> JNull)
                                    else JNull))])]"

text \<open>\<open>MonitoredFile(path).load_file_info()\<close>: \<^verbatim>\<open>os.stat\<close> raises when the path is gone or
  cannot be read.\<close>

definition load_file_info :: "'a pylib_scheme \<Rightarrow> string \<Rightarrow> world \<Rightarrow> (exn + json) \<times> world" where
  "load_file_info L path w =
     (let p = abspath L path in
      case take_fault w of
        (Fails k, w1) \<Rightarrow> (Inl OSError, w1)
      | (Succeeds, w1) \<Rightarrow>
          (case stats w1 p of None \<Rightarrow> (Inl OSError, w1)
           | Some st \<Rightarrow> (Inr (format_json p st), w1)))"

text \<open>\<open>MonitoredFile(path).get_current_info()\<close>.\<close>

definition deleted_stub :: "string \<Rightarrow> json" where
  "deleted_stub p = JObj [(''file'', JObj [(''path'', JStr p)]), (''deleted'', JBool True)]"

definition get_current_info :: "'a pylib_scheme \<Rightarrow> string \<Rightarrow> world \<Rightarrow> json \<times> world" where
  "get_current_info L path w =
     (let p = abspath L path in
      if \<not> path_exists w p then (deleted_stub p, w)
      else case load_file_info L path w of
             (Inl e, w1) \<Rightarrow> (deleted_stub p, w1)
           | (Inr info, w1) \<Rightarrow> (info, w1))"

section \<open>Removal of a record (logger.py)\<close>

text \<open>The loop of \<open>remove_monitored_file_info\<close> over the lines read, with \<open>new_lines\<close>
  and \<open>removed\<close>; an exception other than \<^verbatim>\<open>JSONDecodeError\<close> leaves the function.\<close>

fun remove_loop :: "'a pylib_scheme \<Rightarrow> string \<Rightarrow> string list \<Rightarrow> string list \<Rightarrow> bool
    \<Rightarrow> exn + (string list \<times> bool)" where
  "remove_loop L path [] new_lines removed = Inr (new_lines, removed)"
| "remove_loop L path (raw # rest) new_lines removed =
     (let line = strip raw in
      if line = [] then remove_loop L path rest new_lines removed
      else case loads L line of
             None \<Rightarrow> remove_loop L path rest (new_lines @ [line]) removed
           | Some data \<Rightarrow>
               (case record_path data of
                  Inl e \<Rightarrow> Inl e
                | Inr p \<Rightarrow>
                    if \<not> py_eq p (JStr path)
                    then remove_loop L path rest (new_lines @ [dumps L data]) removed
                    else remove_loop L path rest new_lines True))"

definition remove_monitored_file_info :: "'a pylib_scheme \<Rightarrow> string \<Rightarrow> string \<Rightarrow> world
    \<Rightarrow> (exn + bool) \<times> world" where
  "remove_monitored_file_info L path file w =
     (if \<not> file_exists w file then (Inr False, w)
      else
        let path = abspath L path in
        case sys_read_lines file w of
          ((lines, ok), w1) \<Rightarrow>
            (case remove_loop L path lines [] False of
               Inl e \<Rightarrow> (Inl e, w1)
             | Inr (new_lines, removed) \<Rightarrow>
                 if \<not> ok then (Inr False, w1)
                 else (case atomic_write_lines file new_lines w1 of
                         (False, w2) \<Rightarrow> (Inr False, print MsgErrRemoving w2)
                       | (True, w2) \<Rightarrow> (Inr removed, w2))))"

section \<open>Regeneration of the event index (logger.py)\<close>

text \<open>The loop of \<open>regenerate_event_index\<close> that fills the dict \<open>monitored\<close>.\<close>

fun index_loop :: "'a pylib_scheme \<Rightarrow> string list \<Rightarrow> (json \<times> json) list
    \<Rightarrow> exn + (json \<times> json) list" where
  "index_loop L [] monitored = Inr monitored"
| "index_loop L (raw # rest) monitored =
     (let line = strip raw in
      if line = [] then index_loop L rest monitored
      else case loads L line of
             None \<Rightarrow> index_loop L rest monitored
           | Some data \<Rightarrow>
               (case record_path data of
                  Inl e \<Rightarrow> Inl e
                | Inr path \<Rightarrow>
                    (case dict_get data ''monitoring'' (JObj []) of
                       Inl e \<Rightarrow> Inl e
                     | Inr monitoring \<Rightarrow>
                         if truthy path then
                           (case dict_get monitoring ''watch_events'' (JArr []) of
                              Inl e \<Rightarrow> Inl e
                            | Inr we \<Rightarrow>
                                (case dict_get monitoring ''alert_mode'' JNull of
                                   Inl e \<Rightarrow> Inl e
                                 | Inr am \<Rightarrow>
                                     (case py_dict_set monitored path
                                             (JObj [(''watch_events'', we), (''alert_mode'', am)]) of
                                        Inl e \<Rightarrow> Inl e
                                      | Inr monitored' \<Rightarrow> index_loop L rest monitored')))
                         else index_loop L rest monitored)))"

text \<open>An \<^verbatim>\<open>OSError\<close> while reading is passed over: the index is built from the lines
  read so far. An \<^verbatim>\<open>OSError\<close> while writing is raised again after the cleanup.\<close>

definition regenerate_event_index :: "'a pylib_scheme \<Rightarrow> string \<Rightarrow> string \<Rightarrow> world
    \<Rightarrow> (exn + unit) \<times> world" where
  "regenerate_event_index L file_info file_event w =
     (case (if file_exists w file_info
            then (case sys_read_lines file_info w of
                    ((lines, ok), w1) \<Rightarrow> (index_loop L lines [], w1))
            else (Inr [], w)) of
        (Inl e, w1) \<Rightarrow> (Inl e, w1)
      | (Inr monitored, w1) \<Rightarrow>
          (case atomic_write_text file_event (dump_dict L monitored) w1 of
             (False, w2) \<Rightarrow> (Inl OSError, w2)
           | (True, w2) \<Rightarrow> (Inr (), w2)))"

section \<open>Configuration changes (logger.py)\<close>

definition is_list :: "json \<Rightarrow> bool" where
  "is_list j = (case j of JArr xs \<Rightarrow> True | _ \<Rightarrow> False)"

text \<open>\<^verbatim>\<open>set(x)\<close>, \<^verbatim>\<open>s.add(e)\<close> and \<^verbatim>\<open>s.discard(e)\<close>, a set being the list of its elements in
  insertion order.\<close>

definition py_set_add :: "json list \<Rightarrow> json \<Rightarrow> json list" where
  "py_set_add s e = (if list_ex (\<lambda>x. py_eq x e) s then s else s @ [e])"

definition py_set_discard :: "json list \<Rightarrow> json \<Rightarrow> json list" where
  "py_set_discard s e = filter (\<lambda>x. \<not> py_eq x e) s"

fun py_set :: "json \<Rightarrow> exn + json list" where
  "py_set (JArr xs) = (if list_all hashable xs then Inr (foldl py_set_add [] xs) else Inl TypeError)"
| "py_set (JStr s) = Inr (foldl py_set_add [] (map (\<lambda>c. JStr [c]) s))"
| "py_set (JObj kvs) = Inr (foldl py_set_add [] (map (\<lambda>kv. JStr (fst kv)) kvs))"
| "py_set _ = Inl TypeError"

text \<open>The chain of \<^verbatim>\<open>if\<close>/\<^verbatim>\<open>elif\<close> on \<open>change_type\<close>: the new \<open>monitoring\<close> and whether
  \<open>updated\<close> was set.\<close>

definition change_monitoring :: "'a pylib_scheme \<Rightarrow> string \<Rightarrow> json \<Rightarrow> json \<Rightarrow> json
    \<Rightarrow> exn + (json \<times> bool)" where
  "change_monitoring L change_type new_events new_alert_mode monitoring =
     (if change_type = ''SET_EVENTS'' \<and> is_list new_events then
        bind_exn (dict_set monitoring ''watch_events'' new_events) (\<lambda>m. Inr (m, True))
      else if change_type = ''ADD_EVENT'' \<and> truthy new_events then
        bind_exn (dict_get monitoring ''watch_events'' (JArr [])) (\<lambda>we.
        bind_exn (py_set we) (\<lambda>events.
          if \<not> hashable new_events then Inl TypeError
          else bind_exn (dict_set monitoring ''watch_events''
                           (JArr (set_order L (py_set_add events new_events))))
                 (\<lambda>m. Inr (m, True))))
      else if change_type = ''REMOVE_EVENT'' \<and> truthy new_events then
        bind_exn (dict_get monitoring ''watch_events'' (JArr [])) (\<lambda>we.
        bind_exn (py_set we) (\<lambda>events.
          if \<not> hashable new_events then Inl TypeError
          else bind_exn (dict_set monitoring ''watch_events''
                           (JArr (set_order L (py_set_discard events new_events))))
                 (\<lambda>m. Inr (m, True))))
      else if change_type = ''SET_ALERT'' \<and> truthy new_alert_mode then
        bind_exn (dict_set monitoring ''alert_mode'' new_alert_mode) (\<lambda>m. Inr (m, True))
      else if change_type = ''SET_ALL'' then
        bind_exn (if is_list new_events then dict_set monitoring ''watch_events'' new_events
                  else Inr monitoring) (\<lambda>m1.
        bind_exn (if truthy new_alert_mode then dict_set m1 ''alert_mode'' new_alert_mode
                  else Inr m1) (\<lambda>m2. Inr (m2, True)))
      else Inr (monitoring, False))"

text \<open>The arguments of \<open>set_conf\<close> that say what to change.\<close>

record change =
  change_type :: string
  new_events :: json
  new_alert_mode :: json

text \<open>What \<open>set_conf\<close> does with a parsed line: the line to write and whether
  \<open>updated\<close> was set.\<close>

definition set_conf_line :: "'a pylib_scheme \<Rightarrow> string \<Rightarrow> change \<Rightarrow> json \<Rightarrow> exn + (string \<times> bool)" where
  "set_conf_line L path c data =
     bind_exn (record_path data) (\<lambda>p.
       if py_eq p (JStr path) then
         bind_exn (dict_get data ''monitoring'' (JObj [])) (\<lambda>monitoring.
         bind_exn (change_monitoring L (change_type c) (new_events c) (new_alert_mode c) monitoring)
           (\<lambda>(m, u).
         bind_exn (dict_set data ''monitoring'' m) (\<lambda>data'. Inr (dumps L data', u))))
       else Inr (dumps L data, False))"

fun set_conf_loop :: "'a pylib_scheme \<Rightarrow> string \<Rightarrow> change \<Rightarrow> string list \<Rightarrow> string list \<Rightarrow> bool
    \<Rightarrow> exn + (string list \<times> bool)" where
  "set_conf_loop L path c [] updated_lines updated = Inr (updated_lines, updated)"
| "set_conf_loop L path c (raw # rest) updated_lines updated =
     (let line = strip raw in
      if line = [] then set_conf_loop L path c rest updated_lines updated
      else case loads L line of
             None \<Rightarrow> set_conf_loop L path c rest (updated_lines @ [line]) updated
           | Some data \<Rightarrow>
               (case set_conf_line L path c data of
                  Inl e \<Rightarrow> Inl e
                | Inr (out, u) \<Rightarrow>
                    set_conf_loop L path c rest (updated_lines @ [out]) (updated \<or> u)))"

definition set_conf :: "'a pylib_scheme \<Rightarrow> string \<Rightarrow> change \<Rightarrow> string \<Rightarrow> string \<Rightarrow> world
    \<Rightarrow> (exn + bool) \<times> world" where
  "set_conf L path c file_info file_event w =
     (let path = abspath L path in
      if \<not> file_exists w file_info then (Inr False, w)
      else
        case sys_read_lines file_info w of
          ((lines, ok), w1) \<Rightarrow>
            (case set_conf_loop L path c lines [] False of
               Inl e \<Rightarrow> (Inl e, w1)
             | Inr (updated_lines, updated) \<Rightarrow>
                 if \<not> ok then (Inr False, w1)
                 else if \<not> updated then (Inr False, w1)
                 else (case atomic_write_lines file_info updated_lines w1 of
                         (False, w2) \<Rightarrow> (Inr False, print MsgErrUpdatingConf w2)
                       | (True, w2) \<Rightarrow>
                           (case regenerate_event_index L file_info file_event w2 of
                              (Inl e, w3) \<Rightarrow> (Inr False, print MsgErrRegenerating w3)
                            | (Inr u, w3) \<Rightarrow> (Inr True, w3)))))"

section \<open>Refreshing the store after an event (logger.py)\<close>

text \<open>
  \<^verbatim>\<open>new_data = mf.load_file_info(); new_data["monitoring"] = data.get("monitoring", {})\<close>
  inside its \<^verbatim>\<open>try\<close>: the line to write, or \<open>None\<close> when an \<^verbatim>\<open>OSError\<close> was caught.
\<close>

definition refreshed_line :: "'a pylib_scheme \<Rightarrow> string \<Rightarrow> json \<Rightarrow> world
    \<Rightarrow> (exn + string option) \<times> world" where
  "refreshed_line L p data w =
     (case load_file_info L p w of
        (Inl e, w1) \<Rightarrow> (Inr None, w1)
      | (Inr new_data, w1) \<Rightarrow>
          (bind_exn (dict_get data ''monitoring'' (JObj [])) (\<lambda>m.
           bind_exn (dict_set new_data ''monitoring'' m) (\<lambda>nd. Inr (Some (dumps L nd)))), w1))"

text \<open>What \<open>update_files_state\<close> does with a parsed line: the lines to append.\<close>

definition update_line :: "'a pylib_scheme \<Rightarrow> string \<Rightarrow> string \<Rightarrow> string option \<Rightarrow> json \<Rightarrow> world
    \<Rightarrow> (exn + string list) \<times> world" where
  "update_line L event_type src_path dest_path data w =
     (case record_path data of
        Inl e \<Rightarrow> (Inl e, w)
      | Inr path \<Rightarrow>
          if event_type = ''delete'' \<and> py_eq path (JStr src_path) then (Inr [], w)
          else if event_type = ''move'' \<and> py_eq path (JStr src_path)
                  \<and> (case dest_path of Some d \<Rightarrow> d \<noteq> [] | None \<Rightarrow> False) then
            (if path_exists w (the dest_path) then
               (case refreshed_line L (the dest_path) data w of
                  (Inl e, w1) \<Rightarrow> (Inl e, w1)
                | (Inr None, w1) \<Rightarrow> (Inr [], w1)
                | (Inr (Some l), w1) \<Rightarrow> (Inr [l], w1))
             else (Inr [], w))
          else if (event_type = ''modify'' \<or> event_type = ''add'') \<and> py_eq path (JStr src_path) then
            (if path_exists w src_path then
               (case refreshed_line L src_path data w of
                  (Inl e, w1) \<Rightarrow> (Inl e, w1)
                | (Inr None, w1) \<Rightarrow> (Inr [dumps L data], w1)
                | (Inr (Some l), w1) \<Rightarrow> (Inr [l], w1))
             else (Inr [dumps L data], w))
          else (Inr [dumps L data], w))"

fun update_loop :: "'a pylib_scheme \<Rightarrow> string \<Rightarrow> string \<Rightarrow> string option \<Rightarrow> string list
    \<Rightarrow> string list \<Rightarrow> world \<Rightarrow> (exn + string list) \<times> world" where
  "update_loop L event_type src_path dest_path [] updated_lines w = (Inr updated_lines, w)"
| "update_loop L event_type src_path dest_path (raw # rest) updated_lines w =
     (let line = strip raw in
      if line = [] then update_loop L event_type src_path dest_path rest updated_lines w
      else case loads L line of
             None \<Rightarrow> update_loop L event_type src_path dest_path rest (updated_lines @ [line]) w
           | Some data \<Rightarrow>
               (case update_line L event_type src_path dest_path data w of
                  (Inl e, w1) \<Rightarrow> (Inl e, w1)
                | (Inr out, w1) \<Rightarrow>
                    update_loop L event_type src_path dest_path rest (updated_lines @ out) w1))"

text \<open>\<open>dest_path\<close> is \<open>None\<close> for Python's \<^verbatim>\<open>None\<close>, the default. The function returns
  nothing; a failure of the regeneration is printed and passed over.\<close>

definition update_files_state :: "'a pylib_scheme \<Rightarrow> string \<Rightarrow> string \<Rightarrow> string \<Rightarrow> string
    \<Rightarrow> string option \<Rightarrow> world \<Rightarrow> (exn + unit) \<times> world" where
  "update_files_state L file_info_path file_event_path event_type src_path dest_path w =
     (if \<not> file_exists w file_info_path then (Inr (), w)
      else
        let src_path = abspath L src_path;
            dest_path = (case dest_path of
                           Some d \<Rightarrow> if d \<noteq> [] then Some (abspath L d) else None
                         | None \<Rightarrow> None)
        in case sys_read_lines file_info_path w of
          ((lines, ok), w1) \<Rightarrow>
            (case update_loop L event_type src_path dest_path lines [] w1 of
               (Inl e, w2) \<Rightarrow> (Inl e, w2)
             | (Inr updated_lines, w2) \<Rightarrow>
                 if \<not> ok then (Inr (), w2)
                 else (case atomic_write_lines file_info_path updated_lines w2 of
                         (False, w3) \<Rightarrow> (Inr (), print MsgErrUpdatingState w3)
                       | (True, w3) \<Rightarrow>
                           (case regenerate_event_index L file_info_path file_event_path w3 of
                              (Inl e, w4) \<Rightarrow> (Inr (), print MsgErrRegenerating w4)
                            | (Inr u, w4) \<Rightarrow> (Inr (), w4)))))"

section \<open>Vocabulary of the properties\<close>

text \<open>\<open>same_env\<close>: the monitored paths, the output, the alerts and the clock are as
  before. \<open>extends_trace\<close>: the trace grew by the given calls.\<close>

definition same_env :: "world \<Rightarrow> world \<Rightarrow> bool" where
  "same_env w w' = (stats w' = stats w \<and> stdout w' = stdout w \<and> alerts w' = alerts w
     \<and> clock w' = clock w)"

definition is_fsync :: "sysop \<Rightarrow> bool" where
  "is_fsync op = (case op of OpFsync p \<Rightarrow> True | _ \<Rightarrow> False)"

text \<open>\<open>touches P w w'\<close>: from \<open>w\<close> to \<open>w'\<close> only the files in \<open>P\<close> may have changed, and
  the calls added to the trace contain no \<^verbatim>\<open>fsync\<close>.\<close>

definition touches :: "string set \<Rightarrow> world \<Rightarrow> world \<Rightarrow> bool" where
  "touches P w w' = ((\<forall>q. q \<notin> P \<longrightarrow> files w' q = files w q) \<and> same_env w w'
     \<and> (\<exists>t. trace w' = trace w @ t \<and> (\<forall>x \<in> set t. \<not> is_fsync (fst x))))"

text \<open>After the handler the temporary file is gone, or the last call was its failed
  removal.\<close>

definition tmp_cleaned :: "string \<Rightarrow> world \<Rightarrow> bool" where
  "tmp_cleaned tmp w = (files w tmp = None
     \<or> (trace w \<noteq> [] \<and> last (trace w) = (OpRemove tmp, False)))"

text \<open>The calls of a rewrite that went through, in their order.\<close>

definition rewrite_ops :: "string \<Rightarrow> string list \<Rightarrow> (sysop \<times> bool) list" where
  "rewrite_ops file chunks =
     (OpOpenW (file @ ''.tmp''), True) # map (\<lambda>s. (OpWrite (file @ ''.tmp'') s, True)) chunks
     @ [(OpClose (file @ ''.tmp''), True), (OpChmod (file @ ''.tmp''), True),
        (OpReplace (file @ ''.tmp'') file, True)]"

text \<open>
  \<open>store_rewrite file w w'\<close>: what a run from \<open>w\<close> to \<open>w'\<close> may have done to the store
  \<open>file\<close>. Either the store is as before, and its temporary sibling is untouched, gone,
  or was left by a removal that failed; or the store holds new lines, the temporary
  sibling is gone, and the calls made were, first and in this order, the opening of the
  sibling, the writes, the close, \<^verbatim>\<open>chmod\<close> and \<^verbatim>\<open>os.replace\<close>, each successful. No call
  made is an \<^verbatim>\<open>fsync\<close>.
\<close>

definition store_rewrite :: "string \<Rightarrow> world \<Rightarrow> world \<Rightarrow> bool" where
  "store_rewrite file w w' =
     ((\<exists>t. trace w' = trace w @ t \<and> (\<forall>x \<in> set t. \<not> is_fsync (fst x))) \<and>
      ((files w' file = files w file \<and>
          (files w' (file @ ''.tmp'') = files w (file @ ''.tmp'') \<or> tmp_cleaned (file @ ''.tmp'') w'))
       \<or> (\<exists>ls rest. files w' file = Some (unlines ls) \<and> files w' (file @ ''.tmp'') = None
             \<and> trace w' = trace w @ rewrite_ops file (map (\<lambda>l. l @ [LF]) ls) @ rest)))"

text \<open>The store and its temporary sibling are other files than the index and its
  temporary sibling.\<close>

definition separate_files :: "string \<Rightarrow> string \<Rightarrow> bool" where
  "separate_files file_info file_event =
     ({file_info, file_info @ ''.tmp''} \<inter> {file_event, file_event @ ''.tmp''} = {})"

section \<open>Reading the store (logger.py)\<close>

text \<open>\<open>is_file_already_monitored\<close>: the loop returns at the first record of the path.\<close>

fun monitored_scan :: "'a pylib_scheme \<Rightarrow> string \<Rightarrow> string list \<Rightarrow> exn + bool" where
  "monitored_scan L abs_path [] = Inr False"
| "monitored_scan L abs_path (raw # rest) =
     (let line = strip raw in
      if line = [] then monitored_scan L abs_path rest
      else case loads L line of
             None \<Rightarrow> monitored_scan L abs_path rest
           | Some data \<Rightarrow>
               (case record_path data of
                  Inl e \<Rightarrow> Inl e
                | Inr p \<Rightarrow> if py_eq p (JStr abs_path) then Inr True
                           else monitored_scan L abs_path rest))"

text \<open>A function that reads the store and answers \<open>dflt\<close> when the file is missing or
  an \<^verbatim>\<open>OSError\<close> was caught: the \<^verbatim>\<open>try\<close> around the loop. A result reached before the
  error stands, as a \<^verbatim>\<open>return\<close> inside the loop does.\<close>

definition is_file_already_monitored :: "'a pylib_scheme \<Rightarrow> string \<Rightarrow> string \<Rightarrow> world
    \<Rightarrow> (exn + bool) \<times> world" where
  "is_file_already_monitored L path file w =
     (let abs_path = abspath L path in
      if \<not> file_exists w file then (Inr False, w)
      else case sys_read_lines file w of
             ((lines, ok), w1) \<Rightarrow>
               (case monitored_scan L abs_path lines of
                  Inl e \<Rightarrow> (Inl e, w1)
                | Inr found \<Rightarrow> (Inr found, w1)))"

text \<open>\<open>get_all_monitored_paths\<close>: the set of the truthy paths.\<close>

fun paths_loop :: "'a pylib_scheme \<Rightarrow> string list \<Rightarrow> json list \<Rightarrow> exn + json list" where
  "paths_loop L [] monitored_paths = Inr monitored_paths"
| "paths_loop L (raw # rest) monitored_paths =
     (let line = strip raw in
      if line = [] then paths_loop L rest monitored_paths
      else case loads L line of
             None \<Rightarrow> paths_loop L rest monitored_paths
           | Some data \<Rightarrow>
               (case record_path data of
                  Inl e \<Rightarrow> Inl e
                | Inr path \<Rightarrow>
                    if truthy path then
                      (if hashable path then paths_loop L rest (py_set_add monitored_paths path)
                       else Inl TypeError)
                    else paths_loop L rest monitored_paths))"

definition get_all_monitored_paths :: "'a pylib_scheme \<Rightarrow> string \<Rightarrow> world
    \<Rightarrow> (exn + json list) \<times> world" where
  "get_all_monitored_paths L file w =
     (if \<not> file_exists w file then (Inr [], w)
      else case sys_read_lines file w of
             ((lines, ok), w1) \<Rightarrow>
               (case paths_loop L lines [] of
                  Inl e \<Rightarrow> (Inl e, w1)
                | Inr ps \<Rightarrow> (Inr (if ok then ps else []), w1)))"

text \<open>\<open>show_all_file_monitored\<close>: one summary per record.\<close>

definition summary_of :: "json \<Rightarrow> exn + json" where
  "summary_of data =
     bind_exn (dict_get data ''monitoring'' (JObj [])) (\<lambda>monitoring.
     bind_exn (dict_get data ''file'' (JObj [])) (\<lambda>file_info.
     bind_exn (dict_get file_info ''name'' JNull) (\<lambda>name.
     bind_exn (dict_get file_info ''path'' JNull) (\<lambda>path.
     bind_exn (dict_get file_info ''type'' JNull) (\<lambda>type.
     bind_exn (dict_get monitoring ''watch_events'' (JArr [])) (\<lambda>we.
     bind_exn (dict_get monitoring ''alert_mode'' JNull) (\<lambda>am.
     bind_exn (dict_get monitoring ''added_on'' JNull) (\<lambda>added.
       Inr (JObj [(''file_name'', name), (''path'', path), (''type'', type),
                  (''watch_events'', we), (''alert_mode'', am), (''added_on'', added)])))))))))"

fun summaries_loop :: "'a pylib_scheme \<Rightarrow> string list \<Rightarrow> json list \<Rightarrow> exn + json list" where
  "summaries_loop L [] all_monitored = Inr all_monitored"
| "summaries_loop L (raw # rest) all_monitored =
     (let line = strip raw in
      if line = [] then summaries_loop L rest all_monitored
      else case loads L line of
             None \<Rightarrow> summaries_loop L rest all_monitored
           | Some data \<Rightarrow>
               (case summary_of data of
                  Inl e \<Rightarrow> Inl e
                | Inr s \<Rightarrow> summaries_loop L rest (all_monitored @ [s])))"

definition show_all_file_monitored :: "'a pylib_scheme \<Rightarrow> string \<Rightarrow> world
    \<Rightarrow> (exn + json list) \<times> world" where
  "show_all_file_monitored L file w =
     (if \<not> file_exists w file then (Inr [], w)
      else case sys_read_lines file w of
             ((lines, ok), w1) \<Rightarrow>
               (case summaries_loop L lines [] of
                  Inl e \<Rightarrow> (Inl e, w1)
                | Inr xs \<Rightarrow> (Inr (if ok then xs else []), w1)))"

text \<open>\<open>show_file_monitored_info\<close>: the details of the first record of the path.\<close>

definition details_of :: "json \<Rightarrow> exn + json" where
  "details_of data =
     bind_exn (dict_get data ''metadata'' (JObj [])) (\<lambda>metadata.
     bind_exn (dict_get data ''monitoring'' (JObj [])) (\<lambda>monitoring.
     bind_exn (dict_get data ''file'' (JObj [])) (\<lambda>f.
     bind_exn (dict_get f ''name'' JNull) (\<lambda>name.
     bind_exn (dict_get f ''path'' JNull) (\<lambda>path.
     bind_exn (dict_get f ''type'' JNull) (\<lambda>type.
     bind_exn (dict_get metadata ''size'' JNull) (\<lambda>size.
     bind_exn (dict_get metadata ''permissions'' JNull) (\<lambda>permissions.
     bind_exn (dict_get metadata ''owner'' JNull) (\<lambda>owner.
     bind_exn (dict_get metadata ''group'' JNull) (\<lambda>grp.
     bind_exn (dict_get metadata ''last_modified'' JNull) (\<lambda>last_modified.
     bind_exn (dict_get metadata ''checksum'' JNull) (\<lambda>checksum.
     bind_exn (dict_get monitoring ''watch_events'' (JArr [])) (\<lambda>we.
     bind_exn (dict_get monitoring ''alert_mode'' JNull) (\<lambda>am.
     bind_exn (dict_get monitoring ''added_on'' JNull) (\<lambda>added.
       Inr (JObj [(''file_name'', name), (''path'', path), (''type'', type), (''size'', size),
                  (''permissions'', permissions), (''owner'', owner), (''group'', grp),
                  (''last_modified'', last_modified), (''checksum'', checksum),
                  (''watch_events'', we), (''alert_mode'', am),
                  (''added_on'', added)]))))))))))))))))"

fun details_scan :: "'a pylib_scheme \<Rightarrow> string \<Rightarrow> string list \<Rightarrow> exn + json option" where
  "details_scan L abs_path [] = Inr None"
| "details_scan L abs_path (raw # rest) =
     (let line = strip raw in
      if line = [] then details_scan L abs_path rest
      else case loads L line of
             None \<Rightarrow> details_scan L abs_path rest
           | Some data \<Rightarrow>
               (case record_path data of
                  Inl e \<Rightarrow> Inl e
                | Inr p \<Rightarrow>
                    if py_eq p (JStr abs_path)
                    then (case details_of data of Inl e \<Rightarrow> Inl e | Inr d \<Rightarrow> Inr (Some d))
                    else details_scan L abs_path rest))"

definition show_file_monitored_info :: "'a pylib_scheme \<Rightarrow> string \<Rightarrow> string \<Rightarrow> world
    \<Rightarrow> (exn + json option) \<times> world" where
  "show_file_monitored_info L path file w =
     (let abs_path = abspath L path in
      if \<not> file_exists w file then (Inr None, w)
      else case sys_read_lines file w of
             ((lines, ok), w1) \<Rightarrow> (details_scan L abs_path lines, w1))"

section \<open>The watcher (FileWatcher.py)\<close>

record watcher =
  monitored_files_path :: string
  event_file_path :: string
  monitored :: "(json \<times> json) list"
  baseline_cache :: "(json \<times> json) list"

text \<open>\<open>load_files_monitored\<close>: the dict from path to monitoring configuration.\<close>

fun monitored_loop :: "'a pylib_scheme \<Rightarrow> string list \<Rightarrow> (json \<times> json) list
    \<Rightarrow> exn + (json \<times> json) list" where
  "monitored_loop L [] mon = Inr mon"
| "monitored_loop L (raw # rest) mon =
     (let line = strip raw in
      if line = [] then monitored_loop L rest mon
      else case loads L line of
             None \<Rightarrow> monitored_loop L rest mon
           | Some data \<Rightarrow>
               (case record_path data of
                  Inl e \<Rightarrow> Inl e
                | Inr path \<Rightarrow>
                    (case dict_get data ''monitoring'' (JObj []) of
                       Inl e \<Rightarrow> Inl e
                     | Inr config \<Rightarrow>
                         if truthy path \<and> truthy config then
                           (case py_dict_set mon path config of
                              Inl e \<Rightarrow> Inl e
                            | Inr mon' \<Rightarrow> monitored_loop L rest mon')
                         else monitored_loop L rest mon)))"

definition load_files_monitored :: "'a pylib_scheme \<Rightarrow> string \<Rightarrow> world
    \<Rightarrow> (exn + (json \<times> json) list) \<times> world" where
  "load_files_monitored L file w =
     (if \<not> file_exists w file then (Inr [], w)
      else case sys_read_lines file w of
             ((lines, ok), w1) \<Rightarrow>
               (case monitored_loop L lines [] of
                  Inl e \<Rightarrow> (Inl e, w1)
                | Inr m \<Rightarrow> (Inr (if ok then m else []), w1)))"

text \<open>\<open>load_all_baselines\<close>: the cache from path to record; an \<^verbatim>\<open>OSError\<close> is passed
  over and the entries made so far stay.\<close>

fun baselines_loop :: "'a pylib_scheme \<Rightarrow> string list \<Rightarrow> (json \<times> json) list
    \<Rightarrow> exn + (json \<times> json) list" where
  "baselines_loop L [] cache = Inr cache"
| "baselines_loop L (raw # rest) cache =
     (let line = strip raw in
      if line = [] then baselines_loop L rest cache
      else case loads L line of
             None \<Rightarrow> baselines_loop L rest cache
           | Some data \<Rightarrow>
               (case record_path data of
                  Inl e \<Rightarrow> Inl e
                | Inr path \<Rightarrow>
                    if truthy path then
                      (case py_dict_set cache path data of
                         Inl e \<Rightarrow> Inl e
                       | Inr cache' \<Rightarrow> baselines_loop L rest cache')
                    else baselines_loop L rest cache))"

definition load_all_baselines :: "'a pylib_scheme \<Rightarrow> watcher \<Rightarrow> world
    \<Rightarrow> (exn + watcher) \<times> world" where
  "load_all_baselines L fw w =
     (if \<not> file_exists w (monitored_files_path fw) then (Inr fw, w)
      else case sys_read_lines (monitored_files_path fw) w of
             ((lines, ok), w1) \<Rightarrow>
               (case baselines_loop L lines (baseline_cache fw) of
                  Inl e \<Rightarrow> (Inl e, w1)
                | Inr cache \<Rightarrow> (Inr (fw\<lparr>baseline_cache := cache\<rparr>), w1)))"

text \<open>\<open>load_baseline\<close>: the cache first, then the first record of the path in the file,
  which is put into the cache.\<close>

fun baseline_scan :: "'a pylib_scheme \<Rightarrow> string \<Rightarrow> string list \<Rightarrow> exn + json option" where
  "baseline_scan L path [] = Inr None"
| "baseline_scan L path (raw # rest) =
     (let line = strip raw in
      if line = [] then baseline_scan L path rest
      else case loads L line of
             None \<Rightarrow> baseline_scan L path rest
           | Some data \<Rightarrow>
               (case record_path data of
                  Inl e \<Rightarrow> Inl e
                | Inr p \<Rightarrow> if py_eq p (JStr path) then Inr (Some data)
                           else baseline_scan L path rest))"

definition load_baseline :: "'a pylib_scheme \<Rightarrow> watcher \<Rightarrow> string \<Rightarrow> world
    \<Rightarrow> (exn + json option \<times> watcher) \<times> world" where
  "load_baseline L fw path w =
     (case py_dict_lookup (baseline_cache fw) (JStr path) of
        Some data \<Rightarrow> (Inr (Some data, fw), w)
      | None \<Rightarrow>
          if \<not> file_exists w (monitored_files_path fw) then (Inr (None, fw), w)
          else case sys_read_lines (monitored_files_path fw) w of
                 ((lines, ok), w1) \<Rightarrow>
                   (case baseline_scan L path lines of
                      Inl e \<Rightarrow> (Inl e, w1)
                    | Inr None \<Rightarrow> (Inr (None, fw), w1)
                    | Inr (Some data) \<Rightarrow>
                        (Inr (Some data,
                              fw\<lparr>baseline_cache := py_dict_put (baseline_cache fw) (JStr path) data\<rparr>),
                         w1)))"

text \<open>A line as read from the store is corrupt when it is not blank and
  \<^verbatim>\<open>json.loads\<close> rejects it; \<open>carried L ls\<close> are the corrupt lines among \<open>ls\<close> in their
  order, each without its surrounding whitespace.\<close>

definition corrupt :: "'a pylib_scheme \<Rightarrow> string \<Rightarrow> bool" where
  "corrupt L raw = (strip raw \<noteq> [] \<and> loads L (strip raw) = None)"

definition carried :: "'a pylib_scheme \<Rightarrow> string list \<Rightarrow> string list" where
  "carried L ls = map strip (filter (corrupt L) ls)"

text \<open>\<open>keeps_corrupt L file w w'\<close>: the store is as before, or it holds lines among which
  the corrupt lines of the old content are, in their order.\<close>

definition keeps_corrupt :: "'a pylib_scheme \<Rightarrow> string \<Rightarrow> world \<Rightarrow> world \<Rightarrow> bool" where
  "keeps_corrupt L file w w' =
     (files w' file = files w file \<or>
      (\<exists>out. files w' file = Some (unlines out)
         \<and> subseq (carried L (text_lines (content_of w file))) out))"

text \<open>
  \<open>store_lines L gone ls\<close>: the lines of a rewrite that writes every record back as it
  was parsed, except the records whose path satisfies \<open>gone\<close>, which it leaves out; a
  corrupt line is written without its surrounding whitespace, a blank line is left
  out, and a record whose path cannot be read raises.
\<close>

fun store_lines :: "'a pylib_scheme \<Rightarrow> (json \<Rightarrow> bool) \<Rightarrow> string list \<Rightarrow> exn + string list" where
  "store_lines L gone [] = Inr []"
| "store_lines L gone (raw # rest) =
     (let line = strip raw in
      if line = [] then store_lines L gone rest
      else case loads L line of
             None \<Rightarrow> bind_exn (store_lines L gone rest) (\<lambda>ys. Inr (line # ys))
           | Some data \<Rightarrow>
               bind_exn (record_path data) (\<lambda>p.
                 if gone p then store_lines L gone rest
                 else bind_exn (store_lines L gone rest) (\<lambda>ys. Inr (dumps L data # ys))))"

text \<open>The value of \<open>dest_path\<close> is a non-empty string.\<close>

definition given :: "string option \<Rightarrow> bool" where
  "given dest = (case dest of Some d \<Rightarrow> d \<noteq> [] | None \<Rightarrow> False)"

text \<open>\<open>store_written file ls w wm\<close>: from \<open>w\<close> the store was rewritten with the lines \<open>ls\<close>
  by the calls of a rewrite that went through, and \<open>wm\<close> is the state after the rename.\<close>

definition store_written :: "string \<Rightarrow> string list \<Rightarrow> world \<Rightarrow> world \<Rightarrow> bool" where
  "store_written file ls w wm =
     (files wm file = Some (unlines ls)
      \<and> trace wm = trace w @ rewrite_ops file (map (\<lambda>l. l @ [LF]) ls))"

text \<open>
  The three ways in which \<open>set_conf\<close> can end with result \<open>r\<close> in state \<open>w'\<close>: the store
  is as before and the result is not \<open>True\<close>; or the store was rewritten, then the
  regeneration of the index returned, and the result is \<open>True\<close>; or the store was
  rewritten, then the regeneration of the index raised, and the result is \<open>False\<close>.
\<close>

definition set_conf_outcome :: "'a pylib_scheme \<Rightarrow> string \<Rightarrow> string \<Rightarrow> world
    \<Rightarrow> (exn + bool) \<Rightarrow> world \<Rightarrow> bool" where
  "set_conf_outcome L fi fe w r w' =
     ((files w' fi = files w fi \<and> r \<noteq> Inr True)
      \<or> (\<exists>ls wm. store_written fi ls w wm \<and> files w' fi = Some (unlines ls)
            \<and> ((\<exists>u. regenerate_event_index L fi fe wm = (Inr u, w') \<and> r = Inr True)
               \<or> (\<exists>e w3. regenerate_event_index L fi fe wm = (Inl e, w3)
                     \<and> w' = print MsgErrRegenerating w3 \<and> r = Inr False))))"

text \<open>The index that the content of the store gives: the dict \<open>monitored\<close> after the
  loop over all its lines, or the exception that the loop raises; the empty dict when
  there is no store.\<close>

definition index_of_store :: "'a pylib_scheme \<Rightarrow> string option \<Rightarrow> exn + (json \<times> json) list" where
  "index_of_store L content = (case content of
       None \<Rightarrow> Inr []
     | Some c \<Rightarrow> index_loop L (text_lines c) [])"

section \<open>The history log (logger.py)\<close>

text \<open>\<^verbatim>\<open>json.load(f)\<close> on a file: \<^verbatim>\<open>OSError\<close> when it cannot be read, \<^verbatim>\<open>ValueError\<close> for
  \<^verbatim>\<open>JSONDecodeError\<close>, which is a subclass of it.\<close>

definition load_json :: "'a pylib_scheme \<Rightarrow> string \<Rightarrow> world \<Rightarrow> (exn + json) \<times> world" where
  "load_json L p w =
     (case sys_read_all p w of
        (None, w1) \<Rightarrow> (Inl OSError, w1)
      | (Some c, w1) \<Rightarrow>
          (case loads L c of None \<Rightarrow> (Inl ValueError, w1) | Some j \<Rightarrow> (Inr j, w1)))"

text \<open>\<open>save_log_history\<close>: a history that cannot be read or is no list counts as empty.\<close>

definition save_log_history :: "'a pylib_scheme \<Rightarrow> json \<Rightarrow> string \<Rightarrow> world \<Rightarrow> world" where
  "save_log_history L report file w =
     (case (if file_exists w file
            then (case load_json L file w of
                    (Inr (JArr xs), w1) \<Rightarrow> (xs, w1)
                  | (r, w1) \<Rightarrow> ([], w1))
            else ([], w)) of
        (all_reports, w1) \<Rightarrow>
          (case atomic_write_text file (dumps_indent L (JArr (all_reports @ [report]))) w1 of
             (True, w2) \<Rightarrow> w2
           | (False, w2) \<Rightarrow> print MsgErrSavingHistory w2))"

definition show_log_history :: "'a pylib_scheme \<Rightarrow> string \<Rightarrow> world \<Rightarrow> json list \<times> world" where
  "show_log_history L file w =
     (if \<not> file_exists w file then ([], w)
      else case load_json L file w of
             (Inr (JArr xs), w1) \<Rightarrow> (xs, w1)
           | (r, w1) \<Rightarrow> ([], w1))"

text \<open>\<^verbatim>\<open>x[k]\<close> with a string \<open>k\<close>, and \<^verbatim>\<open>for a in x\<close>.\<close>

fun py_getitem :: "json \<Rightarrow> string \<Rightarrow> exn + json" where
  "py_getitem (JObj kvs) k = (case map_of kvs k of Some v \<Rightarrow> Inr v | None \<Rightarrow> Inl KeyError)"
| "py_getitem _ k = Inl TypeError"

fun py_iter :: "json \<Rightarrow> exn + json list" where
  "py_iter (JArr xs) = Inr xs"
| "py_iter (JObj kvs) = Inr (map (\<lambda>kv. JStr (fst kv)) (AList.clearjunk kvs))"
| "py_iter (JStr s) = Inr (map (\<lambda>c. JStr [c]) s)"
| "py_iter _ = Inl TypeError"

text \<open>\<^verbatim>\<open>datetime.fromisoformat(alert["Time"])\<close>: the argument must be a string.\<close>

definition alert_time :: "'a pylib_scheme \<Rightarrow> json \<Rightarrow> exn + datetime" where
  "alert_time L alert =
     bind_exn (py_getitem alert ''Time'') (\<lambda>v.
       case v of
         JStr s \<Rightarrow> (case fromisoformat L s of None \<Rightarrow> Inl ValueError | Some t \<Rightarrow> Inr t)
       | _ \<Rightarrow> Inl TypeError)"

text \<open>
  The loop of \<open>delete_old_log_history\<close>, \<open>expiration_date\<close> being a time without zone:
  \<^verbatim>\<open>KeyError\<close> and \<^verbatim>\<open>ValueError\<close> keep the alert, any other exception leaves the function,
  and the comparison with a time that has a zone raises \<^verbatim>\<open>TypeError\<close>.
\<close>

fun prune_loop :: "'a pylib_scheme \<Rightarrow> int \<Rightarrow> json list \<Rightarrow> json list \<Rightarrow> exn + json list" where
  "prune_loop L expiration_date [] kept_alerts = Inr kept_alerts"
| "prune_loop L expiration_date (alert # rest) kept_alerts =
     (case alert_time L alert of
        Inl e \<Rightarrow>
          if e = KeyError \<or> e = ValueError
          then prune_loop L expiration_date rest (kept_alerts @ [alert])
          else Inl e
      | Inr (Aware t) \<Rightarrow> Inl TypeError
      | Inr (Naive t) \<Rightarrow>
          if t \<ge> expiration_date
          then prune_loop L expiration_date rest (kept_alerts @ [alert])
          else prune_loop L expiration_date rest kept_alerts)"

text \<open>Every path through \<open>delete_old_log_history\<close> ends without a value, that is with
  \<^verbatim>\<open>None\<close>, or with an exception; the number of deleted alerts is printed. The
  expiration date is computed outside every \<^verbatim>\<open>try\<close>.\<close>

definition delete_old_log_history :: "'a pylib_scheme \<Rightarrow> string \<Rightarrow> int \<Rightarrow> world
    \<Rightarrow> (exn + json) \<times> world" where
  "delete_old_log_history L file retention_years w =
     (if \<not> file_exists w file then (Inr JNull, w)
      else case load_json L file w of
             (Inl e, w1) \<Rightarrow> (Inr JNull, w1)
           | (Inr all_alerts, w1) \<Rightarrow>
               (case minus_years L (clock w1) retention_years of
                  Inl e \<Rightarrow> (Inl e, w1)
                | Inr expiration_date \<Rightarrow>
                    (case py_iter all_alerts of
                       Inl e \<Rightarrow> (Inl e, w1)
                     | Inr entries \<Rightarrow>
                         (case prune_loop L expiration_date entries [] of
                            Inl e \<Rightarrow> (Inl e, w1)
                          | Inr kept_alerts \<Rightarrow>
                              (case atomic_write_text file (dumps_indent L (JArr kept_alerts)) w1 of
                                 (True, w2) \<Rightarrow>
                                   (Inr JNull,
                                    print (MsgDeleted (int (length entries)
                                                       - int (length kept_alerts))) w2)
                               | (False, w2) \<Rightarrow>
                                   (Inr JNull, print MsgErrCleaningHistory w2))))))"

text \<open>An alert is expired when its time is read, has no zone and lies before the
  expiration date.\<close>

definition expired :: "'a pylib_scheme \<Rightarrow> int \<Rightarrow> json \<Rightarrow> bool" where
  "expired L expiration_date alert =
     (case alert_time L alert of Inr (Naive t) \<Rightarrow> t < expiration_date | _ \<Rightarrow> False)"

text \<open>
  What a run from \<open>w\<close> to \<open>w'\<close> may have done to a file that is written as one text.
  \<open>text_rewrite\<close>: the file holds the text, its temporary sibling is gone, and the calls
  made were exactly the opening of the sibling, the write of the text, the close,
  \<^verbatim>\<open>chmod\<close> and \<^verbatim>\<open>os.replace\<close>, each successful. \<open>left_alone\<close>: the file is as before, and
  its temporary sibling is untouched, gone, or was left by a removal that failed.
\<close>

definition text_rewrite :: "string \<Rightarrow> string \<Rightarrow> world \<Rightarrow> world \<Rightarrow> bool" where
  "text_rewrite file text w w' =
     (files w' file = Some text \<and> files w' (file @ ''.tmp'') = None
      \<and> trace w' = trace w @ rewrite_ops file [text])"

definition left_alone :: "string \<Rightarrow> world \<Rightarrow> world \<Rightarrow> bool" where
  "left_alone file w w' =
     (files w' file = files w file
      \<and> (files w' (file @ ''.tmp'') = files w (file @ ''.tmp'') \<or> tmp_cleaned (file @ ''.tmp'') w'))"

section \<open>Alerts (alert_manager.py)\<close>

text \<open>
  \<open>AlertManager.dispatch\<close>: the router. What the transports do (\<^verbatim>\<open>notify-send\<close>, SMTP,
  HTTP) is outside the program; \<open>alerts\<close> records which transport was asked to send
  which report.
\<close>

definition AlertManager_dispatch :: "json \<Rightarrow> json \<Rightarrow> world \<Rightarrow> world" where
  "AlertManager_dispatch report alert_mode w =
     (case report of
        JObj kvs \<Rightarrow>
          (case alert_mode of
             JStr m \<Rightarrow>
               if m = ''system'' then w\<lparr>alerts := alerts w @ [(''system'', report)]\<rparr>
               else if m = ''log'' then w
               else if m = ''email'' then w\<lparr>alerts := alerts w @ [(''email'', report)]\<rparr>
               else if m = ''remote'' then w\<lparr>alerts := alerts w @ [(''remote'', report)]\<rparr>
               else if m = ''silent'' then w
               else w
           | _ \<Rightarrow> w)
      | _ \<Rightarrow> w)"

section \<open>Event processing (FileWatcher.py)\<close>

text \<open>The default of the parameter \<open>file\<close> of \<open>save_log_history\<close>.\<close>

definition alert_history_file :: string where
  "alert_history_file = ''/opt/vigilo/alert_history.json''"

text \<open>\<^verbatim>\<open>self.monitored.get(path, {}).get("alert_mode", "log")\<close>.\<close>

definition alert_mode_of :: "watcher \<Rightarrow> string \<Rightarrow> exn + json" where
  "alert_mode_of fw path =
     dict_get (case py_dict_lookup (monitored fw) (JStr path) of Some cfg \<Rightarrow> cfg | None \<Rightarrow> JObj [])
       ''alert_mode'' (JStr ''log'')"

text \<open>The interpretation and the recommendation of a report, by the kind of the event.\<close>

definition report_texts :: "string \<Rightarrow> string \<times> string" where
  "report_texts user_event =
     (if user_event = ''modify'' then
        (''File content or metadata was modified'', ''Review changes and verify legitimacy'')
      else if user_event = ''delete'' then
        (''File was deleted from filesystem'', ''Restore from backup if unauthorized'')
      else if user_event = ''move'' then
        (''File was moved or renamed'', ''Verify new location and update monitoring'')
      else if user_event = ''add'' then
        (''New file was created'', ''Verify file origin and legitimacy'')
      else (''Unknown event type'', ''Manual investigation required''))"

text \<open>The report: the dict is built with its nine keys in this order, and the last two
  are then assigned, which keeps their place.\<close>

definition report_of :: "'a pylib_scheme \<Rightarrow> string \<Rightarrow> string \<Rightarrow> json \<Rightarrow> json
    \<Rightarrow> (string \<times> json) list \<Rightarrow> world \<Rightarrow> exn + json" where
  "report_of L user_event path alert_mode new_state changes w =
     bind_exn (dict_get new_state ''metadata'' (JObj [])) (\<lambda>m.
     bind_exn (dict_get m ''owner'' (JStr ''unknown'')) (\<lambda>owner.
     bind_exn (dict_get new_state ''metadata'' (JObj [])) (\<lambda>m'.
     bind_exn (dict_get m' ''permissions'' (JStr ''unknown'')) (\<lambda>permissions.
       Inr (JObj [(''File'', JStr path), (''Event'', JStr user_event),
                  (''Time'', JStr (isoformat L (clock w))), (''AlertMode'', alert_mode),
                  (''Owner'', owner), (''Permissions'', permissions),
                  (''Changes'', JObj changes),
                  (''Interpretation'', JStr (fst (report_texts user_event))),
                  (''Recommendation'', JStr (snd (report_texts user_event)))])))))"

text \<open>The update of the cache after the write to the store.\<close>

definition update_cache :: "'a pylib_scheme \<Rightarrow> watcher \<Rightarrow> string \<Rightarrow> string \<Rightarrow> json \<Rightarrow> world
    \<Rightarrow> (exn + unit) \<times> watcher \<times> world" where
  "update_cache L fw user_event path old_state w =
     (if user_event = ''delete''
      then (Inr (), fw\<lparr>baseline_cache := py_dict_pop (baseline_cache fw) (JStr path)\<rparr>, w)
      else if path_exists w path then
        (case get_current_info L path w of
           (new_baseline, w1) \<Rightarrow>
             (case bind_exn (dict_get old_state ''monitoring'' (JObj []))
                     (\<lambda>m. dict_set new_baseline ''monitoring'' m) of
                Inl e \<Rightarrow> (Inl e, fw, w1)
              | Inr new_baseline' \<Rightarrow>
                  (Inr (), fw\<lparr>baseline_cache :=
                              py_dict_put (baseline_cache fw) (JStr path) new_baseline'\<rparr>, w1)))
      else (Inr (), fw, w))"

text \<open>
  \<open>handle_event\<close>. The result is the exception raised, if any, with the watcher and the
  state as they are then. \<^verbatim>\<open>if not old_state\<close> holds for \<^verbatim>\<open>None\<close> and for an empty
  value. \<open>save_log_history\<close> and \<open>update_files_state\<close>, imported from \<^verbatim>\<open>vigilo2.logger\<close>,
  are the functions of \<^verbatim>\<open>logger.py\<close>; the locks are not modelled, the calls being
  sequential.
\<close>

definition handle_event :: "'a pylib_scheme \<Rightarrow> watcher \<Rightarrow> string \<Rightarrow> string \<Rightarrow> world
    \<Rightarrow> (exn + unit) \<times> watcher \<times> world" where
  "handle_event L fw user_event path w =
     (case load_baseline L fw path (print (MsgEventDetected user_event path) w) of
        (Inl e, w1) \<Rightarrow> (Inl e, fw, w1)
      | (Inr (old, fw1), w1) \<Rightarrow>
          (case (case old of None \<Rightarrow> None | Some s \<Rightarrow> if truthy s then Some s else None) of
             None \<Rightarrow> (Inr (), fw1, print MsgNoBaseline w1)
           | Some old_state \<Rightarrow>
               (case get_current_info L path w1 of
                  (new_state, w2) \<Rightarrow>
                    (case compare_metadata old_state new_state of
                       Inl e \<Rightarrow> (Inl e, fw1, w2)
                     | Inr changes \<Rightarrow>
                         if changes = [] \<and> user_event \<noteq> ''delete'' then (Inr (), fw1, w2)
                         else
                           (case bind_exn (alert_mode_of fw1 path) (\<lambda>alert_mode.
                                 bind_exn (report_of L user_event path alert_mode new_state changes w2)
                                   (\<lambda>report. Inr (alert_mode, report))) of
                              Inl e \<Rightarrow> (Inl e, fw1, w2)
                            | Inr (alert_mode, report) \<Rightarrow>
                                (let w3 = save_log_history L report alert_history_file w2;
                                     w4 = AlertManager_dispatch report alert_mode w3
                                 in case update_files_state L (monitored_files_path fw1)
                                           (event_file_path fw1) user_event path None w4 of
                                      (Inl e, w5) \<Rightarrow> (Inl e, fw1, w5)
                                    | (Inr u, w5) \<Rightarrow>
                                        update_cache L fw1 user_event path old_state w5))))))"

section \<open>The filter of the notifications (FileWatcher.py)\<close>

text \<open>The table \<open>EVENT_MAPPING\<close> of the class, which no code reads.\<close>

definition EVENT_MAPPING :: "(string \<times> string list) list" where
  "EVENT_MAPPING = [(''modify'', [''modified'']), (''delete'', [''deleted'']),
     (''move'', [''moved'']), (''permissions'', [''metadata_changed'']),
     (''add'', [''created''])]"

text \<open>A notification of the backend: the path and the kind of the event.\<close>

record fs_event =
  src_path :: string
  event_type :: string

text \<open>The chain of \<^verbatim>\<open>if\<close>/\<^verbatim>\<open>elif\<close> of \<open>Handler.dispatch\<close> that maps the kind of the
  backend; \<open>None\<close> when no branch is taken.\<close>

definition event_kind :: "string \<Rightarrow> string option" where
  "event_kind t =
     (if t = ''modified'' then Some ''modify''
      else if t = ''deleted'' then Some ''delete''
      else if t = ''created'' then Some ''add''
      else if t = ''moved'' then Some ''move''
      else None)"

text \<open>\<^verbatim>\<open>s in x\<close> for a string \<open>s\<close>: an element of a list, a key of a dict, a substring
  of a string; the other values are not iterable.\<close>

fun str_in :: "string \<Rightarrow> json \<Rightarrow> exn + bool" where
  "str_in s (JArr xs) = Inr (\<exists>y \<in> set xs. py_eq y (JStr s))"
| "str_in s (JObj kvs) = Inr (s \<in> fst ` set kvs)"
| "str_in s (JStr t) = Inr (sublist s t)"
| "str_in s _ = Inl TypeError"

text \<open>\<open>Handler.dispatch\<close>, with the watcher as \<open>parent\<close>.\<close>

definition Handler_dispatch :: "'a pylib_scheme \<Rightarrow> watcher \<Rightarrow> fs_event \<Rightarrow> world
    \<Rightarrow> (exn + unit) \<times> watcher \<times> world" where
  "Handler_dispatch L parent event w =
     (let path = abspath L (src_path event) in
      case py_dict_lookup (monitored parent) (JStr path) of
        None \<Rightarrow> (Inr (), parent, w)
      | Some cfg \<Rightarrow>
          (case dict_get cfg ''watch_events'' (JArr []) of
             Inl e \<Rightarrow> (Inl e, parent, w)
           | Inr user_events \<Rightarrow>
               (case event_kind (event_type event) of
                  None \<Rightarrow> (Inr (), parent, w)
                | Some user_event \<Rightarrow>
                    (case str_in user_event user_events of
                       Inl e \<Rightarrow> (Inl e, parent, w)
                     | Inr True \<Rightarrow> handle_event L parent user_event path w
                     | Inr False \<Rightarrow> (Inr (), parent, w)))))"

section \<open>Vocabulary of the event processing\<close>

text \<open>The reports that a history file holds: none when the file is missing, is no JSON
  or is no list.\<close>

definition history_entries :: "'a pylib_scheme \<Rightarrow> string \<Rightarrow> world \<Rightarrow> json list" where
  "history_entries L file w =
     (case files w file of
        None \<Rightarrow> []
      | Some c \<Rightarrow> (case loads L c of Some (JArr xs) \<Rightarrow> xs | _ \<Rightarrow> []))"

text \<open>The history log is another file than the store, the index and their temporary
  siblings.\<close>

definition history_apart :: "watcher \<Rightarrow> bool" where
  "history_apart fw =
     ({alert_history_file, alert_history_file @ ''.tmp''}
        \<inter> {monitored_files_path fw, monitored_files_path fw @ ''.tmp'',
            event_file_path fw, event_file_path fw @ ''.tmp''} = {})"

text \<open>
  \<open>wanted\<close>: the three conditions of the filter on a notification. Its path is a key of
  the monitored configuration, its kind maps to a kind of the domain, one of the keys
  of \<open>EVENT_MAPPING\<close>, and that kind is in the list of watched events of the path.
\<close>

definition wanted :: "'a pylib_scheme \<Rightarrow> watcher \<Rightarrow> fs_event \<Rightarrow> bool" where
  "wanted L fw event =
     (case py_dict_lookup (monitored fw) (JStr (abspath L (src_path event))) of
        None \<Rightarrow> False
      | Some cfg \<Rightarrow>
          (case event_kind (event_type event) of
             None \<Rightarrow> False
           | Some k \<Rightarrow>
               k \<in> set (map fst EVENT_MAPPING) \<and>
               (case dict_get cfg ''watch_events'' (JArr []) of
                  Inr (JArr xs) \<Rightarrow> (\<exists>x \<in> set xs. py_eq x (JStr k))
                | _ \<Rightarrow> False)))"

text \<open>The watched events of a configured path are a list.\<close>

definition watch_events_listed :: "'a pylib_scheme \<Rightarrow> watcher \<Rightarrow> fs_event \<Rightarrow> bool" where
  "watch_events_listed L fw event =
     (case py_dict_lookup (monitored fw) (JStr (abspath L (src_path event))) of
        None \<Rightarrow> True
      | Some cfg \<Rightarrow>
          (case dict_get cfg ''watch_events'' (JArr []) of Inr (JArr xs) \<Rightarrow> True | _ \<Rightarrow> False))"

section \<open>Examples\<close>

text \<open>A library instance for the examples: paths that are absolute and normalised
  already, which \<^verbatim>\<open>os.path.abspath\<close> returns as they are.\<close>

definition plain_lib :: pylib where
  "plain_lib = \<lparr>loads = (\<lambda>s. None), dumps = (\<lambda>j. []), dumps_indent = (\<lambda>j. []),
     dump_dict = (\<lambda>d. []), abspath = (\<lambda>p. p), set_order = (\<lambda>xs. xs),
     fromisoformat = (\<lambda>s. None), minus_years = (\<lambda>t n. Inr (t - n * 31556952)),
     isoformat = (\<lambda>t. [])\<rparr>"

text \<open>Two records of a store, with the text that \<^verbatim>\<open>json.dumps\<close> gives for them, and a
  line that is no JSON.\<close>

definition rec_a :: json where
  "rec_a = JObj [(''file'', JObj [(''path'', JStr ''/srv/a'')]),
                 (''monitoring'', JObj [(''watch_events'', JArr [JStr ''modify'']),
                                        (''alert_mode'', JStr ''log'')])]"

definition rec_b :: json where
  "rec_b = JObj [(''file'', JObj [(''path'', JStr ''/srv/b'')])]"

definition line_a :: string where
  "line_a = ''{\"file\": {\"path\": \"/srv/a\"}, \"monitoring\": {\"watch_events\": [\"modify\"], \"alert_mode\": \"log\"}}''"

definition line_b :: string where
  "line_b = ''{\"file\": {\"path\": \"/srv/b\"}}''"

definition line_bad :: string where
  "line_bad = ''{\"file\": oops''"

text \<open>The record of \<^verbatim>\<open>/srv/a\<close> after its alert mode was set to \<^verbatim>\<open>email\<close>.\<close>

definition rec_a_email :: json where
  "rec_a_email = JObj [(''file'', JObj [(''path'', JStr ''/srv/a'')]),
                 (''monitoring'', JObj [(''watch_events'', JArr [JStr ''modify'']),
                                        (''alert_mode'', JStr ''email'')])]"

definition line_a_email :: string where
  "line_a_email = ''{\"file\": {\"path\": \"/srv/a\"}, \"monitoring\": {\"watch_events\": [\"modify\"], \"alert_mode\": \"email\"}}''"

text \<open>
  The text that \<^verbatim>\<open>json.dumps\<close> and \<^verbatim>\<open>json.dump\<close> with \<^verbatim>\<open>indent=4\<close> give for a value whose
  strings need no escape.
\<close>

definition quoted :: "string \<Rightarrow> string" where
  "quoted s = [CHR 0x22] @ s @ [CHR 0x22]"

fun join_with :: "string \<Rightarrow> string list \<Rightarrow> string" where
  "join_with sep [] = []"
| "join_with sep [x] = x"
| "join_with sep (x # y # ys) = x @ sep @ join_with sep (y # ys)"

fun show_nat :: "nat \<Rightarrow> string" where
  "show_nat n = (if n < 10 then [''0123456789'' ! n]
     else show_nat (n div 10) @ [''0123456789'' ! (n mod 10)])"

declare show_nat.simps [simp del]

definition show_int :: "int \<Rightarrow> string" where
  "show_int i = (if i < 0 then ''-'' @ show_nat (nat (- i)) else show_nat (nat i))"

definition pad :: "nat \<Rightarrow> string" where
  "pad n = replicate n (CHR '' '')"

fun compact :: "json \<Rightarrow> string"
  and compact_list :: "json list \<Rightarrow> string list"
  and compact_items :: "(string \<times> json) list \<Rightarrow> string list" where
  "compact JNull = ''null''"
| "compact (JBool b) = (if b then ''true'' else ''false'')"
| "compact (JInt n) = show_int n"
| "compact (JStr s) = quoted s"
| "compact (JArr xs) = ''['' @ join_with '', '' (compact_list xs) @ '']''"
| "compact (JObj kvs) = ''{'' @ join_with '', '' (compact_items kvs) @ ''}''"
| "compact_list [] = []"
| "compact_list (x # xs) = compact x # compact_list xs"
| "compact_items [] = []"
| "compact_items (kv # kvs) = (quoted (fst kv) @ '': '' @ compact (snd kv)) # compact_items kvs"

fun pretty :: "nat \<Rightarrow> json \<Rightarrow> string"
  and pretty_list :: "nat \<Rightarrow> json list \<Rightarrow> string list"
  and pretty_items :: "nat \<Rightarrow> (string \<times> json) list \<Rightarrow> string list" where
  "pretty n JNull = ''null''"
| "pretty n (JBool b) = (if b then ''true'' else ''false'')"
| "pretty n (JInt i) = show_int i"
| "pretty n (JStr s) = quoted s"
| "pretty n (JArr xs) = (if xs = [] then ''[]''
     else ''['' @ [LF] @ join_with ('','' @ [LF]) (pretty_list (n + 4) xs) @ [LF] @ pad n @ '']'')"
| "pretty n (JObj kvs) = (if kvs = [] then ''{}''
     else ''{'' @ [LF] @ join_with ('','' @ [LF]) (pretty_items (n + 4) kvs) @ [LF] @ pad n @ ''}'')"
| "pretty_list n [] = []"
| "pretty_list n (x # xs) = (pad n @ pretty n x) # pretty_list n xs"
| "pretty_items n [] = []"
| "pretty_items n (kv # kvs) =
     (pad n @ quoted (fst kv) @ '': '' @ pretty n (snd kv)) # pretty_items n kvs"

text \<open>A key of a dict that is not a string is written as the text of its value.\<close>

definition key_text :: "json \<Rightarrow> string" where
  "key_text k = (case k of JStr s \<Rightarrow> s | _ \<Rightarrow> compact k)"

text \<open>Three entries of a history log: of a minute ago, of the year 2020, and with a
  time that is no ISO date; and the text of the log.\<close>

definition alert_new :: json where
  "alert_new = JObj [(''File'', JStr ''/srv/a''), (''Time'', JStr ''2026-11-03T11:59:00'')]"

definition alert_old :: json where
  "alert_old = JObj [(''File'', JStr ''/srv/a''), (''Time'', JStr ''2020-01-01T00:00:00'')]"

definition alert_odd :: json where
  "alert_odd = JObj [(''File'', JStr ''/srv/a''), (''Time'', JStr ''yesterday'')]"

definition history_text :: string where
  "history_text = pretty 0 (JArr [alert_new, alert_old, alert_odd])"

text \<open>
  The library on these texts and values: \<^verbatim>\<open>json.loads\<close> parses the lines of the
  records and the history log and rejects the corrupt line; the clock shows
  2026-11-03T12:00:00, two years before which is 2024-11-03T12:00:00, and 2026 years
  or more before which there is no \<^verbatim>\<open>datetime\<close>.
\<close>

definition demo_lib :: pylib where
  "demo_lib = \<lparr>loads = (\<lambda>s. if s = line_a then Some rec_a else if s = line_b then Some rec_b
                           else if s = line_a_email then Some rec_a_email
                           else if s = history_text then Some (JArr [alert_new, alert_old, alert_odd])
                           else None),
     dumps = (\<lambda>j. if j = rec_a then line_a else if j = rec_b then line_b
                   else if j = rec_a_email then line_a_email else compact j),
     dumps_indent = pretty 0,
     dump_dict = (\<lambda>d. pretty 0 (JObj (map (\<lambda>kv. (key_text (fst kv), snd kv)) d))),
     abspath = (\<lambda>p. p), set_order = (\<lambda>xs. xs),
     fromisoformat = (\<lambda>s. if s = ''2026-11-03T11:59:00'' then Some (Naive 1793707140)
                            else if s = ''2020-01-01T00:00:00'' then Some (Naive 1577836800)
                            else None),
     minus_years = (\<lambda>t n. if t = 1793707200 \<and> n = 2 then Inr 1730635200
                          else if t = 1793707200 \<and> 2026 \<le> n then Inl ValueError
                          else Inr (t - n * 31556952)),
     isoformat = (\<lambda>t. if t = 1793707200 then ''2026-11-03T12:00:00'' else [])\<rparr>"

definition store_path :: string where "store_path = ''/opt/vigilo/file_info.json''"
definition index_path :: string where "index_path = ''/opt/vigilo/file_event.json''"

text \<open>A state with the three lines in the store and no failure ahead, and the same
  state in which the write to the temporary file and then its removal fail.\<close>

definition world0 :: world where
  "world0 = \<lparr>files = (\<lambda>p. if p = store_path
                          then Some (line_a @ [LF] @ line_bad @ [LF] @ line_b @ [LF]) else None),
     stats = (\<lambda>p. None), faults = [], trace = [], stdout = [], alerts = [], clock = 1793707200\<rparr>"

definition world_failing :: world where
  "world_failing = world0\<lparr>faults := [Succeeds, Succeeds, Fails 3, Succeeds, Fails 0]\<rparr>"

text \<open>A store whose first line is the corrupt line behind two spaces.\<close>

definition world_indented :: world where
  "world_indented = world0\<lparr>files := (\<lambda>p. if p = store_path
       then Some (''  '' @ line_bad @ [LF] @ line_a @ [LF]) else None)\<rparr>"

text \<open>The change of the alert mode of \<^verbatim>\<open>/srv/a\<close>, and a state in which the first nine
  calls succeed and the tenth, the opening of the temporary file of the index, fails.\<close>

definition set_alert_email :: change where
  "set_alert_email = \<lparr>change_type = ''SET_ALERT'', new_events = JNull,
     new_alert_mode = JStr ''email''\<rparr>"

definition world_index_fails :: world where
  "world_index_fails = world0\<lparr>faults := [Succeeds, Succeeds, Succeeds, Succeeds, Succeeds, Succeeds, Succeeds, Succeeds, Succeeds,
       Fails 0]\<rparr>"

text \<open>The index of the store after the change.\<close>

definition index_after_change :: "(json \<times> json) list" where
  "index_after_change =
     [(JStr ''/srv/a'', JObj [(''watch_events'', JArr [JStr ''modify'']), (''alert_mode'', JStr ''email'')]),
      (JStr ''/srv/b'', JObj [(''watch_events'', JArr []), (''alert_mode'', JNull)])]"

text \<open>The index of the store of the examples.\<close>

definition index_before :: "(json \<times> json) list" where
  "index_before =
     [(JStr ''/srv/a'', JObj [(''watch_events'', JArr [JStr ''modify'']), (''alert_mode'', JStr ''log'')]),
      (JStr ''/srv/b'', JObj [(''watch_events'', JArr []), (''alert_mode'', JNull)])]"

definition history_path :: string where "history_path = ''/opt/vigilo/alert_history.json''"

text \<open>The state of the examples with the history log of three entries.\<close>

definition world_history :: world where
  "world_history = world0\<lparr>files := (files world0)(history_path \<mapsto> history_text)\<rparr>"

text \<open>
  A watcher of the file \<^verbatim>\<open>/srv/a\<close>, watched for changes and deletion with desktop
  alerts, with the baseline of the file in its cache, and a state in which the file is
  as in the baseline.
\<close>

definition stat_a :: fstat where
  "stat_a = \<lparr>st_kind = KFile, st_size = 12, st_owner = ''root'', st_group = ''root'',
     st_mode = ''-rw-r--r--'', st_mtime = ''2026-11-01T08:00:00'', st_sha256 = Some ''ab12''\<rparr>"

definition config_a :: json where
  "config_a = JObj [(''watch_events'', JArr [JStr ''modify'', JStr ''delete'']),
                    (''alert_mode'', JStr ''system'')]"

definition baseline_a :: json where
  "baseline_a =
     JObj [(''file'', JObj [(''name'', JStr ''a''), (''path'', JStr ''/srv/a''),
                            (''type'', JStr ''file'')]),
           (''metadata'', JObj [(''size'', JInt 12), (''permissions'', JStr ''-rw-r--r--''),
                                (''owner'', JStr ''root''), (''group'', JStr ''root''),
                                (''last_modified'', JStr ''2026-11-01T08:00:00''),
                                (''checksum'', JStr ''ab12'')]),
           (''monitoring'', config_a)]"

definition watcher_a :: watcher where
  "watcher_a = \<lparr>monitored_files_path = store_path, event_file_path = index_path,
     monitored = [(JStr ''/srv/a'', config_a)],
     baseline_cache = [(JStr ''/srv/a'', baseline_a)]\<rparr>"

definition world_watched :: world where
  "world_watched = world0\<lparr>stats := (\<lambda>p. if p = ''/srv/a'' then Some stat_a else None)\<rparr>"

text \<open>The report of a deletion of \<^verbatim>\<open>/srv/a\<close> with no change of the metadata.\<close>

definition report_a :: json where
  "report_a =
     JObj [(''File'', JStr ''/srv/a''), (''Event'', JStr ''delete''),
           (''Time'', JStr ''2026-11-03T12:00:00''), (''AlertMode'', JStr ''system''),
           (''Owner'', JStr ''root''), (''Permissions'', JStr ''-rw-r--r--''),
           (''Changes'', JObj []),
           (''Interpretation'', JStr ''File was deleted from filesystem''),
           (''Recommendation'', JStr ''Restore from backup if unauthorized'')]"

text \<open>Notifications: a change of \<^verbatim>\<open>/srv/a\<close>, its creation, its closing, and a change of
  a path that is not monitored.\<close>

definition event_modified :: fs_event where
  "event_modified = \<lparr>src_path = ''/srv/a'', event_type = ''modified''\<rparr>"

definition event_created :: fs_event where
  "event_created = \<lparr>src_path = ''/srv/a'', event_type = ''created''\<rparr>"

definition event_closed :: fs_event where
  "event_closed = \<lparr>src_path = ''/srv/a'', event_type = ''closed''\<rparr>"

definition event_elsewhere :: fs_event where
  "event_elsewhere = \<lparr>src_path = ''/srv/zzz'', event_type = ''modified''\<rparr>"

section \<open>Properties of path validation\<close>

lemma any_startswith_iff: "any_startswith p ds \<longleftrightarrow> (\<exists>d \<in> set ds. prefix d p)"
  by (induction ds) auto

text \<open>
  Claim C10. \<open>validate_path\<close> decides by string-prefix tests on the absolute path: it
  rejects exactly when a forbidden pattern is a string prefix of the absolute path, or
  a non-empty allow-list is given and none of its entries is a string prefix. With no
  allow-list, or an empty one, only the forbidden patterns decide. The test is on
  characters, not on path components: \<^verbatim>\<open>/home2/x\<close> passes under the allowed root
  \<^verbatim>\<open>/home\<close>, and \<^verbatim>\<open>/procfoo\<close> is rejected by the pattern \<^verbatim>\<open>/proc\<close>.
\<close>

theorem validate_path_string_prefix:
  "(\<not> validate_path L path allowed \<longleftrightarrow>
      (\<exists>p \<in> set forbidden_patterns. prefix p (abspath L path)) \<or>
      (\<exists>ds. allowed = Some ds \<and> ds \<noteq> [] \<and> \<not> (\<exists>d \<in> set ds. prefix d (abspath L path))))
   \<and> (allowed = None \<or> allowed = Some [] \<longrightarrow>
        validate_path L path allowed =
          (\<not> (\<exists>p \<in> set forbidden_patterns. prefix p (abspath L path))))
   \<and> (abspath L ''/home2/x'' = ''/home2/x'' \<longrightarrow>
        validate_path L ''/home2/x'' (Some [''/home'']))
   \<and> (abspath L ''/procfoo'' = ''/procfoo'' \<longrightarrow>
        \<not> validate_path L ''/procfoo'' None)"
  by (auto simp: validate_path_def any_startswith_iff forbidden_patterns_def Let_def
      split: option.splits)

theorem validate_path_string_prefix_witness:
  "validate_path plain_lib ''/home2/x'' (Some [''/home''])
   \<and> \<not> validate_path plain_lib ''/procfoo'' None
   \<and> \<not> validate_path plain_lib ''/procfoo'' (Some [])
   \<and> validate_path plain_lib ''/srv/data'' None
   \<and> \<not> validate_path plain_lib ''/srv/data'' (Some [''/home''])"
  using validate_path_string_prefix [of plain_lib "''/home2/x''" "Some [''/home'']"]
    validate_path_string_prefix [of plain_lib "''/procfoo''" None]
    validate_path_string_prefix [of plain_lib "''/procfoo''" "Some []"]
    validate_path_string_prefix [of plain_lib "''/srv/data''" None]
    validate_path_string_prefix [of plain_lib "''/srv/data''" "Some [''/home'']"]
  by (simp add: plain_lib_def forbidden_patterns_def)

section \<open>Properties of the metadata comparison\<close>

lemma dict_get_meta_field: "dict_get (JObj kvs) k JNull = Inr (meta_field kvs k)"
  by (simp add: meta_field_def)

lemma compare_keys_spec:
  "distinct (map fst acc) \<Longrightarrow>
   \<exists>ch. compare_keys ks (JObj om) (JObj nm) acc = Inr ch \<and> distinct (map fst ch) \<and>
     (\<forall>k. map_of ch k =
        (if k \<in> set ks \<and> \<not> py_eq (meta_field om k) (meta_field nm k)
         then Some (change_entry om nm k) else map_of acc k))"
proof (induction ks arbitrary: acc)
  case Nil
  then show ?case by simp
next
  case (Cons key ks)
  let ?acc' = "if \<not> py_eq (meta_field om key) (meta_field nm key)
          then AList.update key (change_entry om nm key) acc else acc"
  have d: "distinct (map fst ?acc')" using Cons.prems by (simp add: distinct_update)
  from Cons.IH [OF d] obtain ch where
    ch: "compare_keys ks (JObj om) (JObj nm) ?acc' = Inr ch" "distinct (map fst ch)"
      "\<forall>k. map_of ch k = (if k \<in> set ks \<and> \<not> py_eq (meta_field om k) (meta_field nm k)
         then Some (change_entry om nm k) else map_of ?acc' k)" by blast
  have "compare_keys (key # ks) (JObj om) (JObj nm) acc = Inr ch"
    using ch(1) by (cases "py_eq (meta_field om key) (meta_field nm key)")
      (simp_all add: bind_exn_def dict_get_meta_field change_entry_def del: dict_get.simps)
  moreover have "\<forall>k. map_of ch k =
        (if k \<in> set (key # ks) \<and> \<not> py_eq (meta_field om k) (meta_field nm k)
         then Some (change_entry om nm k) else map_of acc k)"
    using ch(3) by (auto simp: update_conv')
  ultimately show ?case using ch(2) by blast
qed

lemma map_of_all_None: "(\<forall>k. map_of ch k = None) \<Longrightarrow> ch = []"
  by (cases ch) (auto split: if_splits)

lemma map_of_single:
  assumes "distinct (map fst ch)" "\<forall>k'. map_of ch k' = (if k' = k then Some v else None)"
  shows "ch = [(k, v)]"
proof -
  have "dom (map_of ch) = {k}" using assms(2) by (auto simp: dom_def)
  then have "set (map fst ch) = {k}" by (simp add: dom_map_of_conv_image_fst)
  with assms(1) have "length ch = 1"
    by (metis One_nat_def card.empty card_insert_if distinct_card empty_iff finite.intros(1) length_map)
  then obtain a b where "ch = [(a, b)]" by (cases ch) auto
  with assms(2) show ?thesis by (auto split: if_splits)
qed

text \<open>
  Claim C4, as the code has it. For two snapshots whose metadata sections are objects,
  \<open>compare_metadata\<close> returns a mapping whose keys are exactly the fields of the old
  metadata whose values differ, a field that the new metadata lacks reading as \<^verbatim>\<open>None\<close>
  there, each with its before and after value. A field that only the new metadata has
  is never reported. The result depends on the metadata sections only; snapshots that
  agree on every field of the old one give the empty change set, and snapshots that
  differ in one field of the old one give one entry.
\<close>

theorem compare_metadata_old_fields:
  assumes "dict_get old ''metadata'' (JObj []) = Inr (JObj om)"
    and "dict_get new ''metadata'' (JObj []) = Inr (JObj nm)"
  shows "\<exists>ch. compare_metadata old new = Inr ch \<and> distinct (map fst ch)
     \<and> (\<forall>k. map_of ch k =
            (if k \<in> set (map fst om) \<and> \<not> py_eq (meta_field om k) (meta_field nm k)
             then Some (JObj [(''before'', meta_field om k), (''after'', meta_field nm k)])
             else None))
     \<and> (\<forall>k. k \<notin> set (map fst om) \<longrightarrow> map_of ch k = None)
     \<and> ((\<forall>k \<in> set (map fst om). py_eq (meta_field om k) (meta_field nm k)) \<longrightarrow> ch = [])
     \<and> (\<forall>k \<in> set (map fst om).
           (\<forall>k' \<in> set (map fst om). py_eq (meta_field om k') (meta_field nm k') \<longleftrightarrow> k' \<noteq> k) \<longrightarrow>
            ch = [(k, JObj [(''before'', meta_field om k), (''after'', meta_field nm k)])])
     \<and> (\<forall>old' new'. dict_get old' ''metadata'' (JObj []) = dict_get old ''metadata'' (JObj []) \<and>
            dict_get new' ''metadata'' (JObj []) = dict_get new ''metadata'' (JObj []) \<longrightarrow>
            compare_metadata old' new' = compare_metadata old new)"
proof -
  from compare_keys_spec [of "[]" "map fst (AList.clearjunk om)" om nm]
  obtain ch where ch: "compare_keys (map fst (AList.clearjunk om)) (JObj om) (JObj nm) [] = Inr ch"
    "distinct (map fst ch)"
    "\<forall>k. map_of ch k = (if k \<in> set (map fst (AList.clearjunk om)) \<and> \<not> py_eq (meta_field om k) (meta_field nm k)
         then Some (change_entry om nm k) else map_of [] k)" by auto
  have keys: "set (map fst (AList.clearjunk om)) = set (map fst om)"
    by (metis dom_clearjunk dom_map_of_conv_image_fst set_map)
  have m: "\<forall>k. map_of ch k =
            (if k \<in> set (map fst om) \<and> \<not> py_eq (meta_field om k) (meta_field nm k)
             then Some (JObj [(''before'', meta_field om k), (''after'', meta_field nm k)])
             else None)"
    using ch(3) keys by (simp add: change_entry_def)
  have n: "\<forall>k. k \<notin> set (map fst om) \<longrightarrow> map_of ch k = None"
    using m by simp
  have c: "compare_metadata old new = Inr ch"
    using assms(1,2) ch(1) by (simp add: compare_metadata_def bind_exn_def)
  have e: "(\<forall>k \<in> set (map fst om). py_eq (meta_field om k) (meta_field nm k)) \<longrightarrow> ch = []"
  proof
    assume h: "\<forall>k \<in> set (map fst om). py_eq (meta_field om k) (meta_field nm k)"
    have "\<forall>k. map_of ch k = None" using m h by auto
    then show "ch = []" by (rule map_of_all_None)
  qed
  have s: "\<forall>k \<in> set (map fst om).
           (\<forall>k' \<in> set (map fst om). py_eq (meta_field om k') (meta_field nm k') \<longleftrightarrow> k' \<noteq> k) \<longrightarrow>
            ch = [(k, JObj [(''before'', meta_field om k), (''after'', meta_field nm k)])]"
  proof (intro ballI impI)
    fix k assume k: "k \<in> set (map fst om)"
      and h: "\<forall>k' \<in> set (map fst om). py_eq (meta_field om k') (meta_field nm k') \<longleftrightarrow> k' \<noteq> k"
    have "\<forall>k'. map_of ch k' = (if k' = k then Some (JObj [(''before'', meta_field om k), (''after'', meta_field nm k)]) else None)"
    proof
      fix k'
      show "map_of ch k' = (if k' = k then Some (JObj [(''before'', meta_field om k), (''after'', meta_field nm k)]) else None)"
      proof (cases "k' \<in> set (map fst om)")
        case True
        then show ?thesis using m h by auto
      next
        case False
        then have "k' \<noteq> k" using k by auto
        then show ?thesis using n False by simp
      qed
    qed
    from map_of_single [OF ch(2) this]
    show "ch = [(k, JObj [(''before'', meta_field om k), (''after'', meta_field nm k)])]" .
  qed
  have i: "\<forall>old' new'. dict_get old' ''metadata'' (JObj []) = dict_get old ''metadata'' (JObj []) \<and>
            dict_get new' ''metadata'' (JObj []) = dict_get new ''metadata'' (JObj []) \<longrightarrow>
            compare_metadata old' new' = compare_metadata old new"
    by (simp add: compare_metadata_def)
  from c ch(2) m n e s i show ?thesis by blast
qed

theorem compare_metadata_old_fields_witness:
  "compare_metadata
     (JObj [(''file'', JObj [(''path'', JStr ''/srv/a'')]),
            (''metadata'', JObj [(''size'', JInt 12), (''permissions'', JStr ''-rw-r--r--'')]),
            (''monitoring'', JObj [(''alert_mode'', JStr ''log'')])])
     (JObj [(''file'', JObj [(''path'', JStr ''/srv/a'')]),
            (''metadata'', JObj [(''size'', JInt 12), (''permissions'', JStr ''-rw-rw-r--''),
                                 (''checksum'', JStr ''ab12'')])])
   = Inr [(''permissions'', JObj [(''before'', JStr ''-rw-r--r--''), (''after'', JStr ''-rw-rw-r--'')])]"
proof -
  define om where "om = [(''size'', JInt 12), (''permissions'', JStr ''-rw-r--r--'')]"
  define nm where "nm = [(''size'', JInt 12), (''permissions'', JStr ''-rw-rw-r--''),
                                 (''checksum'', JStr ''ab12'')]"
  define old where "old = JObj [(''file'', JObj [(''path'', JStr ''/srv/a'')]), (''metadata'', JObj om),
            (''monitoring'', JObj [(''alert_mode'', JStr ''log'')])]"
  define new where "new = JObj [(''file'', JObj [(''path'', JStr ''/srv/a'')]), (''metadata'', JObj nm)]"
  have a: "dict_get old ''metadata'' (JObj []) = Inr (JObj om)" by (simp add: old_def)
  have b: "dict_get new ''metadata'' (JObj []) = Inr (JObj nm)" by (simp add: new_def)
  have k: "''permissions'' \<in> set (map fst om)" by (simp add: om_def)
  have d: "\<forall>k' \<in> set (map fst om).
      py_eq (meta_field om k') (meta_field nm k') \<longleftrightarrow> k' \<noteq> ''permissions''"
    by (simp add: om_def nm_def meta_field_def py_eq_def)
  from compare_metadata_old_fields [OF a b] obtain ch where
    ch: "compare_metadata old new = Inr ch"
    "\<forall>k \<in> set (map fst om).
           (\<forall>k' \<in> set (map fst om). py_eq (meta_field om k') (meta_field nm k') \<longleftrightarrow> k' \<noteq> k) \<longrightarrow>
            ch = [(k, JObj [(''before'', meta_field om k), (''after'', meta_field nm k)])]"
    by blast
  from ch(2) k d have "ch = [(''permissions'', JObj [(''before'', meta_field om ''permissions''),
      (''after'', meta_field nm ''permissions'')])]" by blast
  moreover have "meta_field om ''permissions'' = JStr ''-rw-r--r--''"
    "meta_field nm ''permissions'' = JStr ''-rw-rw-r--''" by (simp_all add: meta_field_def om_def nm_def)
  ultimately show ?thesis using ch(1) by (simp add: old_def new_def om_def nm_def)
qed

text \<open>
  Two snapshots that differ in a field that only the new one has give the empty change
  set; so do the stub of a deleted path as the old snapshot and a snapshot of the file
  as the new one, while the other way round every field is reported.
\<close>

theorem compare_metadata_new_field_counterexample:
  "compare_metadata (JObj [(''metadata'', JObj [(''size'', JInt 12)])])
     (JObj [(''metadata'', JObj [(''size'', JInt 12), (''checksum'', JStr ''ab12'')])]) = Inr []
   \<and> compare_metadata (deleted_stub ''/srv/a'') (format_json ''/srv/a'' stat_a) = Inr []
   \<and> compare_metadata (format_json ''/srv/a'' stat_a) (deleted_stub ''/srv/a'') \<noteq> Inr []"
  by (simp add: compare_metadata_def deleted_stub_def format_json_def stat_a_def bind_exn_def
      py_eq_def AList.delete_eq)

section \<open>Effects of the system calls\<close>

lemma touches_refl [simp]: "touches P w w"
  by (simp add: touches_def same_env_def)

lemma touches_trans: "touches P w w1 \<Longrightarrow> touches Q w1 w2 \<Longrightarrow> touches (P \<union> Q) w w2"
  unfolding touches_def same_env_def
  by (elim conjE exE) (rule conjI, simp, rule conjI, simp, rule_tac x="t @ ta" in exI, auto)

lemma touches_mono: "touches P w w' \<Longrightarrow> P \<subseteq> Q \<Longrightarrow> touches Q w w'"
  unfolding touches_def by blast

lemma touches_trans': "touches P w w1 \<Longrightarrow> touches P w1 w2 \<Longrightarrow> touches P w w2"
  using touches_trans [of P w w1 P w2] by simp

lemma touches_print [simp]: "files (print m w) = files w" "trace (print m w) = trace w"
  "faults (print m w) = faults w" "stats (print m w) = stats w"
  by (simp_all add: print_def)

lemma take_fault_fields:
  "take_fault w = (f, w1) \<Longrightarrow> files w1 = files w \<and> trace w1 = trace w \<and> same_env w w1"
  by (auto simp: take_fault_def same_env_def split: list.splits)

lemma sys_open_w_eff:
  assumes "sys_open_w p w = (ok, w')"
  shows "touches {p} w w'"
    and "ok \<Longrightarrow> files w' p = Some [] \<and> trace w' = trace w @ [(OpOpenW p, True)]"
    and "\<not> ok \<Longrightarrow> files w' = files w"
  using assms
  by (auto simp: sys_open_w_def touches_def same_env_def log_op_def is_fsync_def take_fault_def
      split: fault.splits list.splits prod.splits)

lemma sys_write_eff:
  assumes "sys_write p s w = (ok, w')"
  shows "touches {p} w w'"
    and "ok \<Longrightarrow> files w' p = Some (content_of w p @ s) \<and> trace w' = trace w @ [(OpWrite p s, True)]"
    and "files w' p \<noteq> None"
  using assms
  by (auto simp: sys_write_def touches_def same_env_def log_op_def is_fsync_def take_fault_def
      content_of_def split: fault.splits list.splits prod.splits)

lemma sys_close_eff:
  assumes "sys_close p w = (ok, w')"
  shows "touches {} w w'" and "files w' = files w"
    and "ok \<Longrightarrow> trace w' = trace w @ [(OpClose p, True)]"
  using assms
  by (auto simp: sys_close_def touches_def same_env_def log_op_def is_fsync_def take_fault_def
      split: fault.splits list.splits prod.splits)

lemma sys_chmod_eff:
  assumes "sys_chmod p w = (ok, w')"
  shows "touches {} w w'" and "files w' = files w"
    and "ok \<Longrightarrow> trace w' = trace w @ [(OpChmod p, True)]"
  using assms
  by (auto simp: sys_chmod_def touches_def same_env_def log_op_def is_fsync_def take_fault_def
      split: fault.splits list.splits prod.splits if_splits)

lemma sys_replace_eff:
  assumes "sys_replace src dst w = (ok, w')"
  shows "touches {src, dst} w w'"
    and "ok \<Longrightarrow> files w' = ((files w)(src := None))(dst := files w src)
           \<and> files w src \<noteq> None \<and> trace w' = trace w @ [(OpReplace src dst, True)]"
    and "\<not> ok \<Longrightarrow> files w' = files w"
  using assms
  by (auto simp: sys_replace_def touches_def same_env_def log_op_def is_fsync_def take_fault_def
      split: fault.splits list.splits prod.splits option.splits)

lemma sys_remove_eff:
  assumes "sys_remove p w = (ok, w')"
  shows "touches {p} w w'"
    and "ok \<Longrightarrow> files w' = (files w)(p := None)"
    and "\<not> ok \<Longrightarrow> files w' = files w \<and> trace w' = trace w @ [(OpRemove p, False)]"
  using assms
  by (auto simp: sys_remove_def touches_def same_env_def log_op_def is_fsync_def take_fault_def
      split: fault.splits list.splits prod.splits if_splits)

lemma cleanup_tmp_eff:
  "touches {tmp} w (cleanup_tmp tmp w)" "tmp_cleaned tmp (cleanup_tmp tmp w)"
proof -
  obtain ok w' where r: "sys_remove tmp w = (ok, w')" by (cases "sys_remove tmp w")
  show "touches {tmp} w (cleanup_tmp tmp w)"
    using sys_remove_eff(1) [OF r] by (simp add: cleanup_tmp_def r)
  show "tmp_cleaned tmp (cleanup_tmp tmp w)"
    using sys_remove_eff(2,3) [OF r]
    by (cases ok) (auto simp: cleanup_tmp_def r tmp_cleaned_def file_exists_def)
qed

lemma write_lines_eff:
  "write_lines p ls w = (ok, w') \<Longrightarrow>
     touches {p} w w' \<and>
     (ok \<longrightarrow> files w' p = (if ls = [] then files w p else Some (content_of w p @ unlines ls))
          \<and> trace w' = trace w @ map (\<lambda>l. (OpWrite p (l @ [LF]), True)) ls)"
proof (induction ls arbitrary: w)
  case Nil
  then show ?case by simp
next
  case (Cons l ls)
  obtain ok1 w1 where s: "sys_write p (l @ [LF]) w = (ok1, w1)" by (cases "sys_write p (l @ [LF]) w")
  note e = sys_write_eff [OF s]
  show ?case
  proof (cases ok1)
    case False
    with Cons.prems s e(1) show ?thesis by auto
  next
    case True
    with Cons.prems s have r: "write_lines p ls w1 = (ok, w')" by simp
    from Cons.IH [OF r] have t: "touches {p} w1 w'"
      and k: "ok \<longrightarrow> files w' p = (if ls = [] then files w1 p else Some (content_of w1 p @ unlines ls))
          \<and> trace w' = trace w1 @ map (\<lambda>l. (OpWrite p (l @ [LF]), True)) ls" by auto
    have c1: "content_of w1 p = content_of w p @ l @ [LF]" "files w1 p = Some (content_of w p @ l @ [LF])"
      using e(2) True by (simp_all add: content_of_def)
    have "touches {p} w w'" using touches_trans' [OF e(1) t] .
    moreover have "ok \<longrightarrow> files w' p = Some (content_of w p @ unlines (l # ls))
          \<and> trace w' = trace w @ map (\<lambda>l. (OpWrite p (l @ [LF]), True)) (l # ls)"
      using k c1 e(2) True by (auto simp: unlines_def)
    ultimately show ?thesis by simp
  qed
qed

lemma tmp_neq [simp]: "file @ ''.tmp'' \<noteq> file" "file \<noteq> file @ ''.tmp''"
  by (auto dest: arg_cong [where f = length])

lemma touches_files_other: "touches P w w' \<Longrightarrow> q \<notin> P \<Longrightarrow> files w' q = files w q"
  by (simp add: touches_def)

lemma touches_failed_replace:
  assumes "sys_replace src dst w = (False, w')"
  shows "touches {} w w'"
  using assms
  by (auto simp: sys_replace_def touches_def same_env_def log_op_def is_fsync_def take_fault_def
      split: fault.splits list.splits prod.splits option.splits)

lemma commit_tmp_eff:
  assumes "commit_tmp tmp file w = (ok, w')" and "tmp \<noteq> file"
  shows "touches {tmp, file} w w'"
    and "ok \<Longrightarrow> files w' file = files w tmp \<and> files w tmp \<noteq> None \<and> files w' tmp = None
           \<and> trace w' = trace w @ [(OpChmod tmp, True), (OpReplace tmp file, True)]"
    and "\<not> ok \<Longrightarrow> touches {tmp} w w' \<and> tmp_cleaned tmp w'"
proof -
  obtain ok1 w1 where c: "sys_chmod tmp w = (ok1, w1)" by (cases "sys_chmod tmp w")
  obtain ok2 w2 where r: "sys_replace tmp file w1 = (ok2, w2)" by (cases "sys_replace tmp file w1")
  note ce = sys_chmod_eff [OF c] and re = sys_replace_eff [OF r]
  have t1: "touches {tmp} w w1" using ce(1) by (rule touches_mono) simp
  have A: "touches {tmp, file} w w' \<and>
    (ok \<longrightarrow> files w' file = files w tmp \<and> files w tmp \<noteq> None \<and> files w' tmp = None
           \<and> trace w' = trace w @ [(OpChmod tmp, True), (OpReplace tmp file, True)]) \<and>
    (\<not> ok \<longrightarrow> touches {tmp} w w' \<and> tmp_cleaned tmp w')"
  proof (cases ok1)
    case False
    then have e: "ok = False" "w' = cleanup_tmp tmp w1"
      using assms(1) c by (simp_all add: commit_tmp_def)
    have "touches {tmp} w w'" unfolding e using touches_trans' [OF t1 cleanup_tmp_eff(1)] .
    then show ?thesis using e cleanup_tmp_eff(2) [of tmp w1]
      by (auto intro: touches_mono)
  next
    case True
    show ?thesis
    proof (cases ok2)
      case False
      then have e: "ok = False" "w' = cleanup_tmp tmp w2"
        using assms(1) c r True by (simp_all add: commit_tmp_def)
      have "touches {} w1 w2"
        using r False by (simp add: touches_failed_replace)
      then have "touches {tmp} w1 w2" by (rule touches_mono) simp
      then have "touches {tmp} w w2" using touches_trans' [OF t1] by blast
      then have "touches {tmp} w w'" unfolding e using touches_trans' cleanup_tmp_eff(1) by blast
      then show ?thesis using e cleanup_tmp_eff(2) [of tmp w2]
        by (auto intro: touches_mono)
    next
      case T2: True
      then have e: "ok = True" "w' = w2"
        using assms(1) c r True by (simp_all add: commit_tmp_def)
      have "touches {tmp, file} w w2"
        using touches_trans [OF t1 re(1)] by (rule touches_mono) auto
      moreover have "files w2 file = files w tmp \<and> files w tmp \<noteq> None \<and> files w2 tmp = None
           \<and> trace w2 = trace w @ [(OpChmod tmp, True), (OpReplace tmp file, True)]"
        using re(2) [OF T2] ce(2) ce(3) [OF True] assms(2) by auto
      ultimately show ?thesis using e by simp
    qed
  qed
  from A show "touches {tmp, file} w w'"
    and "ok \<Longrightarrow> files w' file = files w tmp \<and> files w tmp \<noteq> None \<and> files w' tmp = None
           \<and> trace w' = trace w @ [(OpChmod tmp, True), (OpReplace tmp file, True)]"
    and "\<not> ok \<Longrightarrow> touches {tmp} w w' \<and> tmp_cleaned tmp w'" by auto
qed

lemma atomic_write_lines_eff:
  assumes "atomic_write_lines file ls w = (ok, w')"
  shows "touches {file @ ''.tmp'', file} w w'"
    and "ok \<Longrightarrow> files w' file = Some (unlines ls) \<and> files w' (file @ ''.tmp'') = None
           \<and> trace w' = trace w @ rewrite_ops file (map (\<lambda>l. l @ [LF]) ls)"
    and "\<not> ok \<Longrightarrow> touches {file @ ''.tmp''} w w' \<and> tmp_cleaned (file @ ''.tmp'') w'"
proof -
  let ?tmp = "file @ ''.tmp''"
  obtain ok1 w1 where o: "sys_open_w ?tmp w = (ok1, w1)" by (cases "sys_open_w ?tmp w")
  obtain ok2 w2 where wl: "write_lines ?tmp ls w1 = (ok2, w2)" by (cases "write_lines ?tmp ls w1")
  obtain ok3 w3 where cl: "sys_close ?tmp w2 = (ok3, w3)" by (cases "sys_close ?tmp w2")
  obtain ok4 w4 where cm: "commit_tmp ?tmp file w3 = (ok4, w4)" by (cases "commit_tmp ?tmp file w3")
  note oe = sys_open_w_eff [OF o] and we = write_lines_eff [OF wl]
    and ce = sys_close_eff [OF cl] and me = commit_tmp_eff [OF cm tmp_neq(1)]
  have t2: "touches {?tmp} w w2" using touches_trans' [OF oe(1)] we by blast
  have t3: "touches {?tmp} w w3"
    using touches_trans [OF t2 ce(1)] by simp
  have A: "touches {?tmp, file} w w' \<and>
     (ok \<longrightarrow> files w' file = Some (unlines ls) \<and> files w' ?tmp = None
           \<and> trace w' = trace w @ rewrite_ops file (map (\<lambda>l. l @ [LF]) ls)) \<and>
     (\<not> ok \<longrightarrow> touches {?tmp} w w' \<and> tmp_cleaned ?tmp w')"
  proof (cases ok1)
    case False
    then have e: "ok = False" "w' = cleanup_tmp ?tmp w1"
      using assms o by (simp_all add: atomic_write_lines_def Let_def)
    have "touches {?tmp} w w'" unfolding e using touches_trans' [OF oe(1) cleanup_tmp_eff(1)] .
    then show ?thesis using e cleanup_tmp_eff(2) [of ?tmp w1] by (auto intro: touches_mono)
  next
    case T1: True
    show ?thesis
    proof (cases ok2)
      case False
      then have e: "ok = False" "w' = cleanup_tmp ?tmp w3"
        using assms o wl cl T1 by (simp_all add: atomic_write_lines_def Let_def)
      have "touches {?tmp} w w'" unfolding e using touches_trans' [OF t3 cleanup_tmp_eff(1)] .
      then show ?thesis using e cleanup_tmp_eff(2) [of ?tmp w3] by (auto intro: touches_mono)
    next
      case T2: True
      show ?thesis
      proof (cases ok3)
        case False
        then have e: "ok = False" "w' = cleanup_tmp ?tmp w3"
          using assms o wl cl T1 T2 by (simp_all add: atomic_write_lines_def Let_def)
        have "touches {?tmp} w w'" unfolding e using touches_trans' [OF t3 cleanup_tmp_eff(1)] .
        then show ?thesis using e cleanup_tmp_eff(2) [of ?tmp w3] by (auto intro: touches_mono)
      next
        case T3: True
        then have e: "ok = ok4" "w' = w4"
          using assms o wl cl cm T1 T2 by (simp_all add: atomic_write_lines_def Let_def)
        have c1: "content_of w1 ?tmp = []" using oe(2) [OF T1] by (simp add: content_of_def)
        have f3: "files w3 ?tmp = Some (unlines ls)"
          using we T2 c1 oe(2) [OF T1] ce(2) by (auto simp: unlines_def)
        have tr3: "trace w3 = trace w @ (OpOpenW ?tmp, True) # map (\<lambda>s. (OpWrite ?tmp s, True)) (map (\<lambda>l. l @ [LF]) ls)
             @ [(OpClose ?tmp, True)]"
          using we T2 oe(2) [OF T1] ce(3) [OF T3] by (simp add: comp_def)
        have tt: "touches {?tmp, file} w w4"
          using touches_trans [OF t3 me(1)] by (rule touches_mono) auto
        show ?thesis
        proof (cases ok4)
          case True
          then show ?thesis using e tt me(2) [OF True] f3 tr3 by (simp add: rewrite_ops_def)
        next
          case False
          have "touches {?tmp} w w4" using touches_trans' [OF t3] me(3) [OF False] by blast
          then show ?thesis using e tt me(3) [OF False] False by simp
        qed
      qed
    qed
  qed
  from A show "touches {file @ ''.tmp'', file} w w'"
    and "ok \<Longrightarrow> files w' file = Some (unlines ls) \<and> files w' (file @ ''.tmp'') = None
           \<and> trace w' = trace w @ rewrite_ops file (map (\<lambda>l. l @ [LF]) ls)"
    and "\<not> ok \<Longrightarrow> touches {file @ ''.tmp''} w w' \<and> tmp_cleaned (file @ ''.tmp'') w'" by auto
qed

lemma atomic_write_text_eff:
  assumes "atomic_write_text file text w = (ok, w')"
  shows "touches {file @ ''.tmp'', file} w w'"
    and "ok \<Longrightarrow> files w' file = Some text \<and> files w' (file @ ''.tmp'') = None
           \<and> trace w' = trace w @ rewrite_ops file [text]"
    and "\<not> ok \<Longrightarrow> touches {file @ ''.tmp''} w w' \<and> tmp_cleaned (file @ ''.tmp'') w'"
proof -
  let ?tmp = "file @ ''.tmp''"
  obtain ok1 w1 where o: "sys_open_w ?tmp w = (ok1, w1)" by (cases "sys_open_w ?tmp w")
  obtain ok2 w2 where wl: "sys_write ?tmp text w1 = (ok2, w2)" by (cases "sys_write ?tmp text w1")
  obtain ok3 w3 where cl: "sys_close ?tmp w2 = (ok3, w3)" by (cases "sys_close ?tmp w2")
  obtain ok4 w4 where cm: "commit_tmp ?tmp file w3 = (ok4, w4)" by (cases "commit_tmp ?tmp file w3")
  note oe = sys_open_w_eff [OF o] and we = sys_write_eff [OF wl]
    and ce = sys_close_eff [OF cl] and me = commit_tmp_eff [OF cm tmp_neq(1)]
  have t2: "touches {?tmp} w w2" using touches_trans' [OF oe(1) we(1)] .
  have t3: "touches {?tmp} w w3"
    using touches_trans [OF t2 ce(1)] by simp
  have A: "touches {?tmp, file} w w' \<and>
     (ok \<longrightarrow> files w' file = Some text \<and> files w' ?tmp = None
           \<and> trace w' = trace w @ rewrite_ops file [text]) \<and>
     (\<not> ok \<longrightarrow> touches {?tmp} w w' \<and> tmp_cleaned ?tmp w')"
  proof (cases ok1)
    case False
    then have e: "ok = False" "w' = cleanup_tmp ?tmp w1"
      using assms o by (simp_all add: atomic_write_text_def Let_def)
    have "touches {?tmp} w w'" unfolding e using touches_trans' [OF oe(1) cleanup_tmp_eff(1)] .
    then show ?thesis using e cleanup_tmp_eff(2) [of ?tmp w1] by (auto intro: touches_mono)
  next
    case T1: True
    show ?thesis
    proof (cases ok2)
      case False
      then have e: "ok = False" "w' = cleanup_tmp ?tmp w3"
        using assms o wl cl T1 by (simp_all add: atomic_write_text_def Let_def)
      have "touches {?tmp} w w'" unfolding e using touches_trans' [OF t3 cleanup_tmp_eff(1)] .
      then show ?thesis using e cleanup_tmp_eff(2) [of ?tmp w3] by (auto intro: touches_mono)
    next
      case T2: True
      show ?thesis
      proof (cases ok3)
        case False
        then have e: "ok = False" "w' = cleanup_tmp ?tmp w3"
          using assms o wl cl T1 T2 by (simp_all add: atomic_write_text_def Let_def)
        have "touches {?tmp} w w'" unfolding e using touches_trans' [OF t3 cleanup_tmp_eff(1)] .
        then show ?thesis using e cleanup_tmp_eff(2) [of ?tmp w3] by (auto intro: touches_mono)
      next
        case T3: True
        then have e: "ok = ok4" "w' = w4"
          using assms o wl cl cm T1 T2 by (simp_all add: atomic_write_text_def Let_def)
        have c1: "content_of w1 ?tmp = []" using oe(2) [OF T1] by (simp add: content_of_def)
        have f3: "files w3 ?tmp = Some text"
          using we(2) [OF T2] c1 ce(2) by simp
        have tr3: "trace w3 = trace w @ [(OpOpenW ?tmp, True), (OpWrite ?tmp text, True),
             (OpClose ?tmp, True)]"
          using we(2) [OF T2] oe(2) [OF T1] ce(3) [OF T3] by simp
        have tt: "touches {?tmp, file} w w4"
          using touches_trans [OF t3 me(1)] by (rule touches_mono) auto
        show ?thesis
        proof (cases ok4)
          case True
          then show ?thesis using e tt me(2) [OF True] f3 tr3 by (simp add: rewrite_ops_def)
        next
          case False
          have "touches {?tmp} w w4" using touches_trans' [OF t3] me(3) [OF False] by blast
          then show ?thesis using e tt me(3) [OF False] False by simp
        qed
      qed
    qed
  qed
  from A show "touches {file @ ''.tmp'', file} w w'"
    and "ok \<Longrightarrow> files w' file = Some text \<and> files w' (file @ ''.tmp'') = None
           \<and> trace w' = trace w @ rewrite_ops file [text]"
    and "\<not> ok \<Longrightarrow> touches {file @ ''.tmp''} w w' \<and> tmp_cleaned (file @ ''.tmp'') w'" by auto
qed

lemma sys_read_lines_eff:
  assumes "sys_read_lines p w = ((ls, ok), w')"
  shows "files w' = files w" "trace w' = trace w" "same_env w w'" "touches {} w w'"
  using assms
  by (auto simp: sys_read_lines_def take_fault_def same_env_def touches_def
      split: fault.splits list.splits option.splits)

lemma regenerate_event_index_touches:
  assumes "regenerate_event_index L file_info file_event w = (r, w')"
  shows "touches {file_event @ ''.tmp'', file_event} w w'"
proof -
  define pre where "pre = (if file_exists w file_info
            then (case sys_read_lines file_info w of
                    ((lines, ok), w1) \<Rightarrow> (index_loop L lines [], w1))
            else (Inr [], w))"
  obtain m w1 where p: "pre = (m, w1)" by (cases pre)
  have t1: "touches {} w w1"
  proof (cases "file_exists w file_info")
    case True
    obtain ls ok w0 where rd: "sys_read_lines file_info w = ((ls, ok), w0)"
      by (cases "sys_read_lines file_info w") auto
    with True p have "w1 = w0" by (simp add: pre_def)
    then show ?thesis using sys_read_lines_eff(4) [OF rd] by simp
  next
    case False
    with p show ?thesis by (simp add: pre_def)
  qed
  show ?thesis
  proof (cases m)
    case (Inl e)
    then have "w' = w1" using assms p by (simp add: regenerate_event_index_def pre_def [symmetric])
    then show ?thesis using t1 by (auto intro: touches_mono)
  next
    case (Inr mon)
    obtain ok w2 where a: "atomic_write_text file_event (dump_dict L mon) w1 = (ok, w2)"
      by (cases "atomic_write_text file_event (dump_dict L mon) w1")
    then have "w' = w2" using assms p Inr
      by (cases ok) (simp_all add: regenerate_event_index_def pre_def [symmetric])
    then show ?thesis using touches_trans [OF t1 atomic_write_text_eff(1) [OF a]] by simp
  qed
qed

lemma store_rewrite_unchanged:
  assumes "files w' = files w" "trace w' = trace w"
  shows "store_rewrite file w w'"
  using assms by (simp add: store_rewrite_def)

lemma store_rewrite_atomic:
  assumes "files w1 = files w" "trace w1 = trace w"
    and "atomic_write_lines file ls w1 = (ok, w2)"
    and "files w3 = files w2" "trace w3 = trace w2"
  shows "store_rewrite file w w3"
proof -
  note e = atomic_write_lines_eff [OF assms(3)]
  from e(1) obtain t where t: "trace w2 = trace w1 @ t" "\<forall>x \<in> set t. \<not> is_fsync (fst x)"
    by (auto simp: touches_def)
  show ?thesis
  proof (cases ok)
    case True
    from e(2) [OF True] show ?thesis using t assms(1,2,4,5)
      unfolding store_rewrite_def by (intro conjI disjI2) auto
  next
    case False
    from e(3) [OF False] have "files w2 file = files w1 file" "tmp_cleaned (file @ ''.tmp'') w2"
      by (auto dest: touches_files_other [where q = "file"])
    then show ?thesis using t assms(1,2,4,5)
      unfolding store_rewrite_def tmp_cleaned_def by auto
  qed
qed

lemma store_rewrite_atomic_then:
  assumes "files w1 = files w" "trace w1 = trace w"
    and "atomic_write_lines file ls w1 = (True, w2)"
    and "touches P w2 w3" "file \<notin> P" "file @ ''.tmp'' \<notin> P"
    and "files w4 = files w3" "trace w4 = trace w3"
  shows "store_rewrite file w w4"
proof -
  note e = atomic_write_lines_eff [OF assms(3)]
  from e(1) obtain t where t: "trace w2 = trace w1 @ t" "\<forall>x \<in> set t. \<not> is_fsync (fst x)"
    by (auto simp: touches_def)
  from assms(4) obtain t' where t': "trace w3 = trace w2 @ t'" "\<forall>x \<in> set t'. \<not> is_fsync (fst x)"
    by (auto simp: touches_def)
  have f: "files w3 file = files w2 file" "files w3 (file @ ''.tmp'') = files w2 (file @ ''.tmp'')"
    using assms(4,5,6) by (auto dest: touches_files_other)
  have "\<exists>ls rest. files w4 file = Some (unlines ls) \<and> files w4 (file @ ''.tmp'') = None
             \<and> trace w4 = trace w @ rewrite_ops file (map (\<lambda>l. l @ [LF]) ls) @ rest"
    using e(2) f t' assms(1,2,7,8) by auto
  moreover have "\<exists>t. trace w4 = trace w @ t \<and> (\<forall>x \<in> set t. \<not> is_fsync (fst x))"
    using t t' assms(2,8) by (intro exI [of _ "t @ t'"]) auto
  ultimately show ?thesis unfolding store_rewrite_def by blast
qed

lemma remove_monitored_file_info_rewrite:
  assumes "remove_monitored_file_info L path file w = (r, w')"
  shows "store_rewrite file w w'"
proof (cases "file_exists w file")
  case False
  with assms show ?thesis by (simp add: remove_monitored_file_info_def store_rewrite_unchanged)
next
  case True
  obtain ls ok w1 where rd: "sys_read_lines file w = ((ls, ok), w1)"
    by (cases "sys_read_lines file w") auto
  note re = sys_read_lines_eff [OF rd]
  show ?thesis
  proof (cases "remove_loop L (abspath L path) ls [] False")
    case (Inl e)
    with assms True rd have "w' = w1" by (simp add: remove_monitored_file_info_def)
    then show ?thesis using re by (simp add: store_rewrite_unchanged)
  next
    case (Inr res)
    obtain new_lines removed where res: "res = (new_lines, removed)" by (cases res)
    show ?thesis
    proof (cases ok)
      case False
      with assms True rd Inr res have "w' = w1" by (simp add: remove_monitored_file_info_def)
      then show ?thesis using re by (simp add: store_rewrite_unchanged)
    next
      case T: True
      obtain ok2 w2 where a: "atomic_write_lines file new_lines w1 = (ok2, w2)"
        by (cases "atomic_write_lines file new_lines w1")
      have "files w' = files w2 \<and> trace w' = trace w2"
        using assms True rd Inr res T a
        by (cases ok2) (auto simp: remove_monitored_file_info_def)
      then show ?thesis using store_rewrite_atomic [OF re(1,2) a] by simp
    qed
  qed
qed

lemma separate_filesD:
  assumes "separate_files fi fe"
  shows "fi \<notin> {fe @ ''.tmp'', fe}" "fi @ ''.tmp'' \<notin> {fe @ ''.tmp'', fe}"
  using assms by (auto simp: separate_files_def)

lemma set_conf_rewrite:
  assumes "set_conf L path c fi fe w = (r, w')" and "separate_files fi fe"
  shows "store_rewrite fi w w'"
proof (cases "file_exists w fi")
  case False
  with assms show ?thesis by (simp add: set_conf_def store_rewrite_unchanged)
next
  case True
  obtain ls ok w1 where rd: "sys_read_lines fi w = ((ls, ok), w1)"
    by (cases "sys_read_lines fi w") auto
  note re = sys_read_lines_eff [OF rd]
  show ?thesis
  proof (cases "set_conf_loop L (abspath L path) c ls [] False")
    case (Inl e)
    with assms True rd have "w' = w1" by (simp add: set_conf_def)
    then show ?thesis using re by (simp add: store_rewrite_unchanged)
  next
    case (Inr res)
    obtain updated_lines updated where res: "res = (updated_lines, updated)" by (cases res)
    show ?thesis
    proof (cases "ok \<and> updated")
      case False
      with assms True rd Inr res have "w' = w1" by (auto simp: set_conf_def split: if_splits)
      then show ?thesis using re by (simp add: store_rewrite_unchanged)
    next
      case T: True
      obtain ok2 w2 where a: "atomic_write_lines fi updated_lines w1 = (ok2, w2)"
        by (cases "atomic_write_lines fi updated_lines w1")
      show ?thesis
      proof (cases ok2)
        case False
        then have "files w' = files w2 \<and> trace w' = trace w2"
          using assms True rd Inr res T a by (auto simp: set_conf_def)
        then show ?thesis using store_rewrite_atomic [OF re(1,2) a] by simp
      next
        case T2: True
        have a': "atomic_write_lines fi updated_lines w1 = (True, w2)" using a T2 by simp
        obtain r3 w3 where g: "regenerate_event_index L fi fe w2 = (r3, w3)"
          by (cases "regenerate_event_index L fi fe w2")
        have "files w' = files w3 \<and> trace w' = trace w3"
          using assms True rd Inr res T a T2 g by (cases r3) (auto simp: set_conf_def)
        then show ?thesis
          using store_rewrite_atomic_then [OF re(1,2) a'
              regenerate_event_index_touches [OF g] separate_filesD [OF assms(2)]]
          by simp
      qed
    qed
  qed
qed

lemma load_file_info_eff:
  assumes "load_file_info L p w = (r, w')"
  shows "files w' = files w" "trace w' = trace w" "same_env w w'"
  using assms
  by (auto simp: load_file_info_def Let_def take_fault_def same_env_def
      split: fault.splits list.splits option.splits)

lemma refreshed_line_eff:
  assumes "refreshed_line L p data w = (r, w')"
  shows "files w' = files w" "trace w' = trace w" "same_env w w'"
proof -
  obtain r1 w1 where l: "load_file_info L p w = (r1, w1)" by (cases "load_file_info L p w")
  have "w' = w1" using assms l by (cases r1) (auto simp: refreshed_line_def)
  then show "files w' = files w" "trace w' = trace w" "same_env w w'"
    using load_file_info_eff [OF l] by simp_all
qed

lemma update_line_eff:
  assumes "update_line L ev src dest data w = (r, w')"
  shows "files w' = files w \<and> trace w' = trace w \<and> same_env w w'"
proof -
  have s: "same_env w w" by (simp add: same_env_def)
  have k: "files w1 = files w \<and> trace w1 = trace w \<and> same_env w w1"
    if "refreshed_line L p data w = (r1, w1)" for p r1 w1
    using refreshed_line_eff [OF that] by simp
  show ?thesis
  proof (cases "record_path data")
    case (Inl e)
    with assms s show ?thesis by (simp add: update_line_def)
  next
    case (Inr path)
    define cd where "cd \<longleftrightarrow> ev = ''delete'' \<and> py_eq path (JStr src)"
    define cm where "cm \<longleftrightarrow> ev = ''move'' \<and> py_eq path (JStr src)
        \<and> (case dest of Some d \<Rightarrow> d \<noteq> [] | None \<Rightarrow> False)"
    define cx where "cx \<longleftrightarrow> (ev = ''modify'' \<or> ev = ''add'') \<and> py_eq path (JStr src)"
    have u: "update_line L ev src dest data w =
      (if cd then (Inr [], w)
       else if cm then
            (if path_exists w (the dest) then
               (case refreshed_line L (the dest) data w of
                  (Inl e, w1) \<Rightarrow> (Inl e, w1)
                | (Inr None, w1) \<Rightarrow> (Inr [], w1)
                | (Inr (Some l), w1) \<Rightarrow> (Inr [l], w1))
             else (Inr [], w))
       else if cx then
            (if path_exists w src then
               (case refreshed_line L src data w of
                  (Inl e, w1) \<Rightarrow> (Inl e, w1)
                | (Inr None, w1) \<Rightarrow> (Inr [dumps L data], w1)
                | (Inr (Some l), w1) \<Rightarrow> (Inr [l], w1))
             else (Inr [dumps L data], w))
       else (Inr [dumps L data], w))"
      unfolding update_line_def cd_def cm_def cx_def Inr by simp
    obtain r1 w1 where f1: "refreshed_line L (the dest) data w = (r1, w1)"
      by (cases "refreshed_line L (the dest) data w")
    obtain r2 w2 where f2: "refreshed_line L src data w = (r2, w2)"
      by (cases "refreshed_line L src data w")
    have "w' = w \<or> w' = w1 \<or> w' = w2"
      using assms unfolding u f1 f2
      by (auto split: if_splits sum.splits option.splits)
    then show ?thesis using s k [OF f1] k [OF f2] by auto
  qed
qed

lemma update_loop_eff:
  "update_loop L ev src dest ls acc w = (r, w') \<Longrightarrow>
     files w' = files w \<and> trace w' = trace w \<and> same_env w w'"
proof (induction ls arbitrary: acc w)
  case Nil
  then show ?case by (simp add: same_env_def)
next
  case (Cons raw rest)
  show ?case
  proof (cases "strip raw = []")
    case True
    with Cons.prems have "update_loop L ev src dest rest acc w = (r, w')" by simp
    from Cons.IH [OF this] show ?thesis .
  next
    case False
    show ?thesis
    proof (cases "loads L (strip raw)")
      case None
      with False Cons.prems have "update_loop L ev src dest rest (acc @ [strip raw]) w = (r, w')"
        by simp
      from Cons.IH [OF this] show ?thesis .
    next
      case (Some data)
      obtain r1 w1 where u: "update_line L ev src dest data w = (r1, w1)"
        by (cases "update_line L ev src dest data w")
      note ue = update_line_eff [OF u]
      show ?thesis
      proof (cases r1)
        case (Inl e)
        with False Some u Cons.prems have "w' = w1" by simp
        with ue show ?thesis by simp
      next
        case (Inr out)
        with False Some u Cons.prems
        have "update_loop L ev src dest rest (acc @ out) w1 = (r, w')" by simp
        from Cons.IH [OF this] ue show ?thesis by (simp add: same_env_def)
      qed
    qed
  qed
qed

lemma update_files_state_rewrite:
  assumes "update_files_state L fi fe ev src dest w = (r, w')" and "separate_files fi fe"
  shows "store_rewrite fi w w'"
proof (cases "file_exists w fi")
  case False
  with assms show ?thesis by (simp add: update_files_state_def store_rewrite_unchanged)
next
  case True
  define dest' where "dest' = (case dest of
                           Some d \<Rightarrow> if d \<noteq> [] then Some (abspath L d) else None
                         | None \<Rightarrow> None)"
  obtain ls ok w1 where rd: "sys_read_lines fi w = ((ls, ok), w1)"
    by (cases "sys_read_lines fi w") auto
  note re = sys_read_lines_eff [OF rd]
  obtain r2 w2 where lp: "update_loop L ev (abspath L src) dest' ls [] w1 = (r2, w2)"
    by (cases "update_loop L ev (abspath L src) dest' ls [] w1")
  note le = update_loop_eff [OF lp]
  have f2: "files w2 = files w" "trace w2 = trace w" using le re by simp_all
  show ?thesis
  proof (cases r2)
    case (Inl e)
    with assms True rd lp have "w' = w2"
      by (simp add: update_files_state_def Let_def dest'_def [symmetric])
    then show ?thesis using f2 by (simp add: store_rewrite_unchanged)
  next
    case (Inr updated_lines)
    show ?thesis
    proof (cases ok)
      case False
      with assms True rd lp Inr have "w' = w2"
        by (simp add: update_files_state_def Let_def dest'_def [symmetric])
      then show ?thesis using f2 by (simp add: store_rewrite_unchanged)
    next
      case T: True
      obtain ok3 w3 where a: "atomic_write_lines fi updated_lines w2 = (ok3, w3)"
        by (cases "atomic_write_lines fi updated_lines w2")
      show ?thesis
      proof (cases ok3)
        case False
        then have "files w' = files w3 \<and> trace w' = trace w3"
          using assms True rd lp Inr T a
          by (auto simp: update_files_state_def Let_def dest'_def [symmetric])
        then show ?thesis using store_rewrite_atomic [OF f2 a] by simp
      next
        case T3: True
        have a': "atomic_write_lines fi updated_lines w2 = (True, w3)" using a T3 by simp
        obtain r4 w4 where g: "regenerate_event_index L fi fe w3 = (r4, w4)"
          by (cases "regenerate_event_index L fi fe w3")
        have "files w' = files w4 \<and> trace w' = trace w4"
          using assms True rd lp Inr T a T3 g
          by (cases r4) (auto simp: update_files_state_def Let_def dest'_def [symmetric])
        then show ?thesis
          using store_rewrite_atomic_then [OF f2 a'
              regenerate_event_index_touches [OF g] separate_filesD [OF assms(2)]]
          by simp
      qed
    qed
  qed
qed

text \<open>
  Claim C1, as the code has it. The block that ends every rewrite either replaces the
  store by the lines written, with the temporary sibling gone, or fails and leaves the
  store as it was, with the temporary sibling gone unless its removal failed. Each of
  the three rewriting functions leaves the store as \<open>store_rewrite\<close> says: unchanged, or
  replaced after the calls open, write, close, \<^verbatim>\<open>chmod\<close>, \<^verbatim>\<open>os.replace\<close> on the
  temporary sibling, in this order and without any \<^verbatim>\<open>fsync\<close>.
\<close>

theorem store_rewrite_by_temporary_sibling:
  "(atomic_write_lines fi ls w = (ok, wz) \<longrightarrow>
      (ok \<longrightarrow> files wz fi = Some (unlines ls) \<and> files wz (fi @ ''.tmp'') = None
         \<and> trace wz = trace w @ rewrite_ops fi (map (\<lambda>l. l @ [LF]) ls))
      \<and> (\<not> ok \<longrightarrow> files wz fi = files w fi \<and> tmp_cleaned (fi @ ''.tmp'') wz))
   \<and> (remove_monitored_file_info L path fi w = (ra, wa) \<longrightarrow> store_rewrite fi w wa)
   \<and> (separate_files fi fe \<and> set_conf L path c fi fe w = (rb, wb) \<longrightarrow> store_rewrite fi w wb)
   \<and> (separate_files fi fe \<and> update_files_state L fi fe ev src dest w = (rc, wc)
        \<longrightarrow> store_rewrite fi w wc)"
proof -
  have A: "atomic_write_lines fi ls w = (ok, wz) \<longrightarrow>
      (ok \<longrightarrow> files wz fi = Some (unlines ls) \<and> files wz (fi @ ''.tmp'') = None
         \<and> trace wz = trace w @ rewrite_ops fi (map (\<lambda>l. l @ [LF]) ls))
      \<and> (\<not> ok \<longrightarrow> files wz fi = files w fi \<and> tmp_cleaned (fi @ ''.tmp'') wz)"
  proof
    assume a: "atomic_write_lines fi ls w = (ok, wz)"
    show "(ok \<longrightarrow> files wz fi = Some (unlines ls) \<and> files wz (fi @ ''.tmp'') = None
         \<and> trace wz = trace w @ rewrite_ops fi (map (\<lambda>l. l @ [LF]) ls))
      \<and> (\<not> ok \<longrightarrow> files wz fi = files w fi \<and> tmp_cleaned (fi @ ''.tmp'') wz)"
    proof (cases ok)
      case True
      then show ?thesis using atomic_write_lines_eff(2) [OF a] by simp
    next
      case False
      have t: "touches {fi @ ''.tmp''} w wz" and c: "tmp_cleaned (fi @ ''.tmp'') wz"
        using atomic_write_lines_eff(3) [OF a False] by simp_all
      have "files wz fi = files w fi" using touches_files_other [OF t, of fi] by simp
      then show ?thesis using False c by simp
    qed
  qed
  have B: "remove_monitored_file_info L path fi w = (ra, wa) \<longrightarrow> store_rewrite fi w wa"
  proof
    assume "remove_monitored_file_info L path fi w = (ra, wa)"
    then show "store_rewrite fi w wa" by (rule remove_monitored_file_info_rewrite)
  qed
  have C: "separate_files fi fe \<and> set_conf L path c fi fe w = (rb, wb) \<longrightarrow> store_rewrite fi w wb"
  proof
    assume h: "separate_files fi fe \<and> set_conf L path c fi fe w = (rb, wb)"
    show "store_rewrite fi w wb" using set_conf_rewrite [of L path c fi fe w rb wb] h by simp
  qed
  have D: "separate_files fi fe \<and> update_files_state L fi fe ev src dest w = (rc, wc)
        \<longrightarrow> store_rewrite fi w wc"
  proof
    assume h: "separate_files fi fe \<and> update_files_state L fi fe ev src dest w = (rc, wc)"
    show "store_rewrite fi w wc"
      using update_files_state_rewrite [of L fi fe ev src dest w rc wc] h by simp
  qed
  show ?thesis by (rule conjI [OF A conjI [OF B conjI [OF C D]]])
qed

section \<open>The example store\<close>

lemma strip_lines [simp]:
  "strip (line_a @ [LF]) = line_a" "strip (line_b @ [LF]) = line_b" "strip (line_bad @ [LF]) = line_bad"
  by (simp_all add: strip_def is_space_def line_a_def line_b_def line_bad_def LF_def)

lemma text_lines_store:
  "text_lines (line_a @ [LF] @ line_bad @ [LF] @ line_b @ [LF])
     = [line_a @ [LF], line_bad @ [LF], line_b @ [LF]]"
  by (simp add: text_lines_def line_a_def line_b_def line_bad_def LF_def CR_def)

lemma lines_distinct [simp]: "line_a \<noteq> line_b" "line_b \<noteq> line_a" "line_bad \<noteq> line_a"
  "line_bad \<noteq> line_b" "line_a \<noteq> []" "line_b \<noteq> []" "line_bad \<noteq> []"
  "line_bad \<noteq> line_a_email" "line_a_email \<noteq> line_a" "line_a_email \<noteq> line_b"
  "line_a_email \<noteq> []" "line_a \<noteq> line_a_email" "line_b \<noteq> line_a_email"
  "line_bad \<noteq> history_text" "line_a \<noteq> history_text" "line_b \<noteq> history_text"
  "line_a_email \<noteq> history_text"
  by (simp_all add: line_a_def line_b_def line_bad_def line_a_email_def history_text_def)

lemma dumps_table:
  "compact rec_a = line_a" "compact rec_b = line_b" "compact rec_a_email = line_a_email"
  by (simp_all add: rec_a_def rec_b_def rec_a_email_def line_a_def line_b_def line_a_email_def
      quoted_def)

lemma paths_distinct [simp]: "store_path \<noteq> index_path" "index_path \<noteq> store_path"
  "store_path @ ''.tmp'' \<noteq> index_path" "index_path @ ''.tmp'' \<noteq> store_path"
  "store_path @ ''.tmp'' \<noteq> index_path @ ''.tmp''"
  "index_path \<noteq> store_path @ ''.tmp''" "store_path \<noteq> index_path @ ''.tmp''"
  "index_path @ ''.tmp'' \<noteq> store_path @ ''.tmp''"
  by (simp_all add: store_path_def index_path_def)

lemma remove_loop_example:
  "remove_loop demo_lib ''/srv/a'' [line_a @ [LF], line_bad @ [LF], line_b @ [LF]] [] False
   = Inr ([line_bad, line_b], True)"
  by (simp add: demo_lib_def record_path_def bind_exn_def rec_a_def rec_b_def py_eq_def)

lemma remove_example:
  "remove_monitored_file_info demo_lib ''/srv/a'' store_path world0 =
     (Inr True, world0\<lparr>files := ((files world0)(store_path @ ''.tmp'' := None))
          (store_path \<mapsto> line_bad @ [LF] @ line_b @ [LF]),
        trace := rewrite_ops store_path [line_bad @ [LF], line_b @ [LF]]\<rparr>)"
proof -
  have a: "abspath demo_lib ''/srv/a'' = ''/srv/a''" by (simp add: demo_lib_def)
  have r: "sys_read_lines store_path world0
     = (([line_a @ [LF], line_bad @ [LF], line_b @ [LF]], True), world0)"
    using text_lines_store by (simp add: sys_read_lines_def take_fault_def world0_def)
  have w: "atomic_write_lines store_path [line_bad, line_b] world0 =
     (True, world0\<lparr>files := ((files world0)(store_path @ ''.tmp'' := None))
          (store_path \<mapsto> line_bad @ [LF] @ line_b @ [LF]),
        trace := rewrite_ops store_path [line_bad @ [LF], line_b @ [LF]]\<rparr>)"
    by (simp add: atomic_write_lines_def Let_def sys_open_w_def sys_write_def sys_close_def
        commit_tmp_def sys_chmod_def sys_replace_def take_fault_def log_op_def world0_def
        content_of_def file_exists_def rewrite_ops_def)
  have e: "file_exists world0 store_path" by (simp add: file_exists_def world0_def)
  show ?thesis
    unfolding remove_monitored_file_info_def Let_def a using e r remove_loop_example w
    by simp
qed


lemma remove_failing_example:
  "fst (remove_monitored_file_info demo_lib ''/srv/a'' store_path world_failing) = Inr False"
  "files (snd (remove_monitored_file_info demo_lib ''/srv/a'' store_path world_failing))
     (store_path @ ''.tmp'') = Some (take 3 line_bad)"
  "files (snd (remove_monitored_file_info demo_lib ''/srv/a'' store_path world_failing)) store_path
     = files world_failing store_path"
proof -
  have a: "abspath demo_lib ''/srv/a'' = ''/srv/a''" by (simp add: demo_lib_def)
  define w1 where "w1 = world0\<lparr>faults := [Succeeds, Fails 3, Succeeds, Fails 0]\<rparr>"
  have r: "sys_read_lines store_path world_failing
     = (([line_a @ [LF], line_bad @ [LF], line_b @ [LF]], True), w1)"
    using text_lines_store
    by (simp add: sys_read_lines_def take_fault_def world0_def world_failing_def w1_def)
  have w: "atomic_write_lines store_path [line_bad, line_b] w1 =
     (False, world0\<lparr>files := (files world0)(store_path @ ''.tmp'' \<mapsto> take 3 line_bad),
        trace := [(OpOpenW (store_path @ ''.tmp''), True),
                  (OpWrite (store_path @ ''.tmp'') (line_bad @ [LF]), False),
                  (OpClose (store_path @ ''.tmp''), True),
                  (OpRemove (store_path @ ''.tmp''), False)]\<rparr>)"
    by (simp add: atomic_write_lines_def Let_def sys_open_w_def sys_write_def sys_close_def
        cleanup_tmp_def sys_remove_def take_fault_def log_op_def world0_def w1_def
        content_of_def file_exists_def line_bad_def)
  have e: "file_exists world_failing store_path"
    by (simp add: file_exists_def world0_def world_failing_def)
  have "remove_monitored_file_info demo_lib ''/srv/a'' store_path world_failing =
     (Inr False, print MsgErrRemoving
        (world0\<lparr>files := (files world0)(store_path @ ''.tmp'' \<mapsto> take 3 line_bad),
        trace := [(OpOpenW (store_path @ ''.tmp''), True),
                  (OpWrite (store_path @ ''.tmp'') (line_bad @ [LF]), False),
                  (OpClose (store_path @ ''.tmp''), True),
                  (OpRemove (store_path @ ''.tmp''), False)]\<rparr>))"
    unfolding remove_monitored_file_info_def Let_def a using e r remove_loop_example w
    by simp
  then show "fst (remove_monitored_file_info demo_lib ''/srv/a'' store_path world_failing) = Inr False"
    "files (snd (remove_monitored_file_info demo_lib ''/srv/a'' store_path world_failing))
     (store_path @ ''.tmp'') = Some (take 3 line_bad)"
    "files (snd (remove_monitored_file_info demo_lib ''/srv/a'' store_path world_failing)) store_path
     = files world_failing store_path"
    by (simp_all add: world_failing_def)
qed

section \<open>The rewrite of the store through a temporary sibling\<close>

theorem store_rewrite_by_temporary_sibling_witness:
  "separate_files store_path index_path
   \<and> store_rewrite store_path world0
        (snd (remove_monitored_file_info demo_lib ''/srv/a'' store_path world0))
   \<and> files (snd (remove_monitored_file_info demo_lib ''/srv/a'' store_path world0)) store_path
        = Some (line_bad @ [LF] @ line_b @ [LF])
   \<and> store_rewrite store_path world0
        (snd (set_conf demo_lib ''/srv/a''
                \<lparr>change_type = ''SET_ALERT'', new_events = JNull, new_alert_mode = JStr ''email''\<rparr>
                store_path index_path world0))
   \<and> store_rewrite store_path world_failing
        (snd (update_files_state demo_lib store_path index_path ''delete'' ''/srv/a'' None
                world_failing))"
proof -
  have s: "separate_files store_path index_path" by (simp add: separate_files_def)
  note t1 = store_rewrite_by_temporary_sibling [where fi = store_path and fe = index_path
      and L = demo_lib and w = world0 and path = "''/srv/a''"
      and c = "\<lparr>change_type = ''SET_ALERT'', new_events = JNull, new_alert_mode = JStr ''email''\<rparr>"
      and ra = "fst (remove_monitored_file_info demo_lib ''/srv/a'' store_path world0)"
      and wa = "snd (remove_monitored_file_info demo_lib ''/srv/a'' store_path world0)"
      and rb = "fst (set_conf demo_lib ''/srv/a''
                \<lparr>change_type = ''SET_ALERT'', new_events = JNull, new_alert_mode = JStr ''email''\<rparr>
                store_path index_path world0)"
      and wb = "snd (set_conf demo_lib ''/srv/a''
                \<lparr>change_type = ''SET_ALERT'', new_events = JNull, new_alert_mode = JStr ''email''\<rparr>
                store_path index_path world0)"]
  note t2 = store_rewrite_by_temporary_sibling [where fi = store_path and fe = index_path
      and L = demo_lib and w = world_failing and ev = "''delete''" and src = "''/srv/a''"
      and dest = None
      and rc = "fst (update_files_state demo_lib store_path index_path ''delete'' ''/srv/a'' None
                world_failing)"
      and wc = "snd (update_files_state demo_lib store_path index_path ''delete'' ''/srv/a'' None
                world_failing)"]
  from t1 t2 s show ?thesis by (simp add: remove_example)
qed

text \<open>
  Claim C1 as it is stated fails on two counts. In a run without any failure the
  calls made for the rewrite are the opening of the temporary file, the writes, the
  close, \<^verbatim>\<open>chmod\<close> and \<^verbatim>\<open>os.replace\<close>: nothing is synchronised to the device before the
  rename. And when the write to the temporary file fails and the removal of the
  temporary file fails too, the function returns \<open>False\<close> and the temporary file stays.
\<close>

theorem store_rewrite_fsync_counterexample:
  "trace (snd (remove_monitored_file_info demo_lib ''/srv/a'' store_path world0)) =
     [(OpOpenW (store_path @ ''.tmp''), True),
      (OpWrite (store_path @ ''.tmp'') (line_bad @ [LF]), True),
      (OpWrite (store_path @ ''.tmp'') (line_b @ [LF]), True),
      (OpClose (store_path @ ''.tmp''), True),
      (OpChmod (store_path @ ''.tmp''), True),
      (OpReplace (store_path @ ''.tmp'') store_path, True)]
   \<and> fst (remove_monitored_file_info demo_lib ''/srv/a'' store_path world_failing) = Inr False
   \<and> files (snd (remove_monitored_file_info demo_lib ''/srv/a'' store_path world_failing))
        (store_path @ ''.tmp'') = Some (take 3 line_bad)"
  using remove_failing_example by (simp add: remove_example rewrite_ops_def)

section \<open>Corrupt lines\<close>

lemma carried_Cons:
  "carried L (raw # rest) = (if corrupt L raw then strip raw # carried L rest else carried L rest)"
  by (simp add: carried_def)

lemma remove_loop_carried:
  "remove_loop L path ls acc rm = Inr (out, r) \<Longrightarrow>
     \<exists>ys. out = acc @ ys \<and> subseq (carried L ls) ys"
proof (induction ls arbitrary: acc rm)
  case Nil
  then show ?case by (simp add: carried_def)
next
  case (Cons raw rest)
  show ?case
  proof (cases "strip raw = []")
    case True
    with Cons.prems have "remove_loop L path rest acc rm = Inr (out, r)" by simp
    from Cons.IH [OF this] True show ?thesis by (simp add: carried_Cons corrupt_def)
  next
    case False
    show ?thesis
    proof (cases "loads L (strip raw)")
      case None
      with False Cons.prems have "remove_loop L path rest (acc @ [strip raw]) rm = Inr (out, r)"
        by simp
      from Cons.IH [OF this] obtain ys where "out = (acc @ [strip raw]) @ ys"
        "subseq (carried L rest) ys" by blast
      then show ?thesis using None False
        by (intro exI [of _ "strip raw # ys"]) (simp add: carried_Cons corrupt_def)
    next
      case (Some data)
      then have nc: "carried L (raw # rest) = carried L rest"
        by (simp add: carried_Cons corrupt_def)
      from Cons.prems False Some obtain acc' rm' where
        "remove_loop L path rest acc' rm' = Inr (out, r)" "\<exists>zs. acc' = acc @ zs"
        by (auto split: sum.splits if_splits)
      then obtain zs ys where "acc' = acc @ zs" "out = acc' @ ys" "subseq (carried L rest) ys"
        using Cons.IH by blast
      then show ?thesis unfolding nc
        by (intro exI [of _ "zs @ ys"]) (simp add: subseq_drop_many)
    qed
  qed
qed

lemma set_conf_loop_carried:
  "set_conf_loop L path c ls acc u = Inr (out, r) \<Longrightarrow>
     \<exists>ys. out = acc @ ys \<and> subseq (carried L ls) ys"
proof (induction ls arbitrary: acc u)
  case Nil
  then show ?case by (simp add: carried_def)
next
  case (Cons raw rest)
  show ?case
  proof (cases "strip raw = []")
    case True
    with Cons.prems have "set_conf_loop L path c rest acc u = Inr (out, r)" by simp
    from Cons.IH [OF this] True show ?thesis by (simp add: carried_Cons corrupt_def)
  next
    case False
    show ?thesis
    proof (cases "loads L (strip raw)")
      case None
      with False Cons.prems have "set_conf_loop L path c rest (acc @ [strip raw]) u = Inr (out, r)"
        by simp
      from Cons.IH [OF this] obtain ys where "out = (acc @ [strip raw]) @ ys"
        "subseq (carried L rest) ys" by blast
      then show ?thesis using None False
        by (intro exI [of _ "strip raw # ys"]) (simp add: carried_Cons corrupt_def)
    next
      case (Some data)
      then have nc: "carried L (raw # rest) = carried L rest"
        by (simp add: carried_Cons corrupt_def)
      from Cons.prems False Some obtain acc' u' where
        "set_conf_loop L path c rest acc' u' = Inr (out, r)" "\<exists>zs. acc' = acc @ zs"
        by (auto split: sum.splits prod.splits)
      then obtain zs ys where "acc' = acc @ zs" "out = acc' @ ys" "subseq (carried L rest) ys"
        using Cons.IH by blast
      then show ?thesis unfolding nc
        by (intro exI [of _ "zs @ ys"]) (simp add: subseq_drop_many)
    qed
  qed
qed

lemma update_loop_carried:
  "update_loop L ev src dest ls acc w = (Inr out, w') \<Longrightarrow>
     \<exists>ys. out = acc @ ys \<and> subseq (carried L ls) ys"
proof (induction ls arbitrary: acc w)
  case Nil
  then show ?case by (simp add: carried_def)
next
  case (Cons raw rest)
  show ?case
  proof (cases "strip raw = []")
    case True
    with Cons.prems have "update_loop L ev src dest rest acc w = (Inr out, w')" by simp
    from Cons.IH [OF this] True show ?thesis by (simp add: carried_Cons corrupt_def)
  next
    case False
    show ?thesis
    proof (cases "loads L (strip raw)")
      case None
      with False Cons.prems
      have "update_loop L ev src dest rest (acc @ [strip raw]) w = (Inr out, w')" by simp
      from Cons.IH [OF this] obtain ys where "out = (acc @ [strip raw]) @ ys"
        "subseq (carried L rest) ys" by blast
      then show ?thesis using None False
        by (intro exI [of _ "strip raw # ys"]) (simp add: carried_Cons corrupt_def)
    next
      case (Some data)
      then have nc: "carried L (raw # rest) = carried L rest"
        by (simp add: carried_Cons corrupt_def)
      obtain r1 w1 where u: "update_line L ev src dest data w = (r1, w1)"
        by (cases "update_line L ev src dest data w")
      from Cons.prems False Some u obtain zs where
        "update_loop L ev src dest rest (acc @ zs) w1 = (Inr out, w')"
        by (cases r1) auto
      then obtain ys where "out = (acc @ zs) @ ys" "subseq (carried L rest) ys"
        using Cons.IH by blast
      then show ?thesis unfolding nc
        by (intro exI [of _ "zs @ ys"]) (simp add: subseq_drop_many)
    qed
  qed
qed


lemma sys_read_lines_ok:
  assumes "sys_read_lines p w = ((ls, ok), w')" and ok
  shows "ls = text_lines (content_of w p)"
  using assms
  by (auto simp: sys_read_lines_def take_fault_def content_of_def
      split: fault.splits list.splits option.splits)

lemma keeps_corrupt_unchanged: "files w' = files w \<Longrightarrow> keeps_corrupt L file w w'"
  by (simp add: keeps_corrupt_def)

lemma keeps_corrupt_atomic:
  assumes "files w1 = files w"
    and "atomic_write_lines file out w1 = (ok, w2)"
    and "subseq (carried L (text_lines (content_of w file))) out"
    and "touches P w2 w3" "file \<notin> P"
  shows "keeps_corrupt L file w w3"
proof -
  have f3: "files w3 file = files w2 file" using assms(4,5) by (rule touches_files_other)
  show ?thesis
  proof (cases ok)
    case True
    then have "files w2 file = Some (unlines out)"
      using atomic_write_lines_eff(2) [OF assms(2)] by simp
    then show ?thesis using f3 assms(3) unfolding keeps_corrupt_def by auto
  next
    case False
    then have "touches {file @ ''.tmp''} w1 w2"
      using atomic_write_lines_eff(3) [OF assms(2)] by simp
    then have "files w2 file = files w1 file" by (rule touches_files_other) simp
    then show ?thesis using f3 assms(1) unfolding keeps_corrupt_def by simp
  qed
qed

lemma remove_keeps_corrupt:
  assumes "remove_monitored_file_info L path file w = (r, w')"
  shows "keeps_corrupt L file w w'"
proof (cases "file_exists w file")
  case False
  with assms show ?thesis by (simp add: remove_monitored_file_info_def keeps_corrupt_unchanged)
next
  case True
  obtain ls ok w1 where rd: "sys_read_lines file w = ((ls, ok), w1)"
    by (cases "sys_read_lines file w") auto
  note re = sys_read_lines_eff [OF rd]
  show ?thesis
  proof (cases "remove_loop L (abspath L path) ls [] False")
    case (Inl e)
    with assms True rd have "w' = w1" by (simp add: remove_monitored_file_info_def)
    then show ?thesis using re by (simp add: keeps_corrupt_unchanged)
  next
    case (Inr res)
    obtain new_lines removed where res: "res = (new_lines, removed)" by (cases res)
    show ?thesis
    proof (cases ok)
      case False
      with assms True rd Inr res have "w' = w1" by (simp add: remove_monitored_file_info_def)
      then show ?thesis using re by (simp add: keeps_corrupt_unchanged)
    next
      case T: True
      have ls: "ls = text_lines (content_of w file)" using sys_read_lines_ok [OF rd] T by simp
      have sub: "subseq (carried L (text_lines (content_of w file))) new_lines"
        using remove_loop_carried [of L "abspath L path" ls "[]" False new_lines removed] Inr res ls
        by simp
      obtain ok2 w2 where a: "atomic_write_lines file new_lines w1 = (ok2, w2)"
        by (cases "atomic_write_lines file new_lines w1")
      have "files w' = files w2"
        using assms True rd Inr res T a
        by (cases ok2) (auto simp: remove_monitored_file_info_def)
      then have "touches {} w2 w' \<or> files w' file = files w2 file" by simp
      have k: "keeps_corrupt L file w w2"
        using keeps_corrupt_atomic [OF re(1) a sub touches_refl [of "{}" w2]] by simp
      then show ?thesis using \<open>files w' = files w2\<close> by (simp add: keeps_corrupt_def)
    qed
  qed
qed

lemma set_conf_keeps_corrupt:
  assumes "set_conf L path c fi fe w = (r, w')" and "separate_files fi fe"
  shows "keeps_corrupt L fi w w'"
proof (cases "file_exists w fi")
  case False
  with assms show ?thesis by (simp add: set_conf_def keeps_corrupt_unchanged)
next
  case True
  obtain ls ok w1 where rd: "sys_read_lines fi w = ((ls, ok), w1)"
    by (cases "sys_read_lines fi w") auto
  note re = sys_read_lines_eff [OF rd]
  show ?thesis
  proof (cases "set_conf_loop L (abspath L path) c ls [] False")
    case (Inl e)
    with assms True rd have "w' = w1" by (simp add: set_conf_def)
    then show ?thesis using re by (simp add: keeps_corrupt_unchanged)
  next
    case (Inr res)
    obtain updated_lines updated where res: "res = (updated_lines, updated)" by (cases res)
    show ?thesis
    proof (cases "ok \<and> updated")
      case False
      with assms True rd Inr res have "w' = w1" by (auto simp: set_conf_def split: if_splits)
      then show ?thesis using re by (simp add: keeps_corrupt_unchanged)
    next
      case T: True
      have ls: "ls = text_lines (content_of w fi)" using sys_read_lines_ok [OF rd] T by simp
      have sub: "subseq (carried L (text_lines (content_of w fi))) updated_lines"
        using set_conf_loop_carried [of L "abspath L path" c ls "[]" False updated_lines updated]
          Inr res ls by simp
      obtain ok2 w2 where a: "atomic_write_lines fi updated_lines w1 = (ok2, w2)"
        by (cases "atomic_write_lines fi updated_lines w1")
      show ?thesis
      proof (cases ok2)
        case False
        then have f: "files w' = files w2"
          using assms True rd Inr res T a by (auto simp: set_conf_def)
        have "keeps_corrupt L fi w w2"
          using keeps_corrupt_atomic [OF re(1) a sub touches_refl [of "{}" w2]] by simp
        then show ?thesis using f by (simp add: keeps_corrupt_def)
      next
        case T2: True
        obtain r3 w3 where g: "regenerate_event_index L fi fe w2 = (r3, w3)"
          by (cases "regenerate_event_index L fi fe w2")
        have f: "files w' = files w3"
          using assms True rd Inr res T a T2 g by (cases r3) (auto simp: set_conf_def)
        have "keeps_corrupt L fi w w3"
          using keeps_corrupt_atomic [OF re(1) a sub regenerate_event_index_touches [OF g]
              separate_filesD(1) [OF assms(2)]] .
        then show ?thesis using f by (simp add: keeps_corrupt_def)
      qed
    qed
  qed
qed

lemma update_files_state_keeps_corrupt:
  assumes "update_files_state L fi fe ev src dest w = (r, w')" and "separate_files fi fe"
  shows "keeps_corrupt L fi w w'"
proof (cases "file_exists w fi")
  case False
  with assms show ?thesis by (simp add: update_files_state_def keeps_corrupt_unchanged)
next
  case True
  define dest' where "dest' = (case dest of
                           Some d \<Rightarrow> if d \<noteq> [] then Some (abspath L d) else None
                         | None \<Rightarrow> None)"
  obtain ls ok w1 where rd: "sys_read_lines fi w = ((ls, ok), w1)"
    by (cases "sys_read_lines fi w") auto
  note re = sys_read_lines_eff [OF rd]
  obtain r2 w2 where lp: "update_loop L ev (abspath L src) dest' ls [] w1 = (r2, w2)"
    by (cases "update_loop L ev (abspath L src) dest' ls [] w1")
  note le = update_loop_eff [OF lp]
  have f2: "files w2 = files w" using le re by simp
  show ?thesis
  proof (cases r2)
    case (Inl e)
    with assms True rd lp have "w' = w2"
      by (simp add: update_files_state_def Let_def dest'_def [symmetric])
    then show ?thesis using f2 by (simp add: keeps_corrupt_unchanged)
  next
    case (Inr updated_lines)
    show ?thesis
    proof (cases ok)
      case False
      with assms True rd lp Inr have "w' = w2"
        by (simp add: update_files_state_def Let_def dest'_def [symmetric])
      then show ?thesis using f2 by (simp add: keeps_corrupt_unchanged)
    next
      case T: True
      have ls: "ls = text_lines (content_of w fi)" using sys_read_lines_ok [OF rd] T by simp
      have sub: "subseq (carried L (text_lines (content_of w fi))) updated_lines"
        using update_loop_carried [of L ev "abspath L src" dest' ls "[]" w1 updated_lines w2]
          lp Inr ls by simp
      obtain ok3 w3 where a: "atomic_write_lines fi updated_lines w2 = (ok3, w3)"
        by (cases "atomic_write_lines fi updated_lines w2")
      show ?thesis
      proof (cases ok3)
        case False
        then have f: "files w' = files w3"
          using assms True rd lp Inr T a
          by (auto simp: update_files_state_def Let_def dest'_def [symmetric])
        have "keeps_corrupt L fi w w3"
          using keeps_corrupt_atomic [OF f2 a sub touches_refl [of "{}" w3]] by simp
        then show ?thesis using f by (simp add: keeps_corrupt_def)
      next
        case T3: True
        obtain r4 w4 where g: "regenerate_event_index L fi fe w3 = (r4, w4)"
          by (cases "regenerate_event_index L fi fe w3")
        have f: "files w' = files w4"
          using assms True rd lp Inr T a T3 g
          by (cases r4) (auto simp: update_files_state_def Let_def dest'_def [symmetric])
        have "keeps_corrupt L fi w w4"
          using keeps_corrupt_atomic [OF f2 a sub regenerate_event_index_touches [OF g]
              separate_filesD(1) [OF assms(2)]] .
        then show ?thesis using f by (simp add: keeps_corrupt_def)
      qed
    qed
  qed
qed

text \<open>The loops that read the store give the same result with and without the corrupt
  lines.\<close>

lemma index_loop_skips: "index_loop L (filter (\<lambda>l. \<not> corrupt L l) ls) m = index_loop L ls m"
  by (induction ls arbitrary: m)
    (simp_all add: corrupt_def Let_def split: option.splits sum.splits)

lemma monitored_loop_skips:
  "monitored_loop L (filter (\<lambda>l. \<not> corrupt L l) ls) m = monitored_loop L ls m"
  by (induction ls arbitrary: m)
    (simp_all add: corrupt_def Let_def split: option.splits sum.splits)

lemma baselines_loop_skips:
  "baselines_loop L (filter (\<lambda>l. \<not> corrupt L l) ls) m = baselines_loop L ls m"
  by (induction ls arbitrary: m)
    (simp_all add: corrupt_def Let_def split: option.splits sum.splits)

lemma baseline_scan_skips:
  "baseline_scan L p (filter (\<lambda>l. \<not> corrupt L l) ls) = baseline_scan L p ls"
  by (induction ls) (simp_all add: corrupt_def Let_def split: option.splits sum.splits)

lemma monitored_scan_skips:
  "monitored_scan L p (filter (\<lambda>l. \<not> corrupt L l) ls) = monitored_scan L p ls"
  by (induction ls) (simp_all add: corrupt_def Let_def split: option.splits sum.splits)

lemma details_scan_skips:
  "details_scan L p (filter (\<lambda>l. \<not> corrupt L l) ls) = details_scan L p ls"
  by (induction ls) (simp_all add: corrupt_def Let_def split: option.splits sum.splits)

lemma paths_loop_skips:
  "paths_loop L (filter (\<lambda>l. \<not> corrupt L l) ls) m = paths_loop L ls m"
  by (induction ls arbitrary: m)
    (simp_all add: corrupt_def Let_def split: option.splits sum.splits)

lemma summaries_loop_skips:
  "summaries_loop L (filter (\<lambda>l. \<not> corrupt L l) ls) m = summaries_loop L ls m"
  by (induction ls arbitrary: m)
    (simp_all add: corrupt_def Let_def split: option.splits sum.splits)


lemma carried_store:
  "carried demo_lib [line_a @ [LF], line_bad @ [LF], line_b @ [LF]] = [line_bad]"
  by (simp add: carried_def corrupt_def demo_lib_def)



section \<open>Runs without failure\<close>

lemma sys_open_w_nf:
  "faults w = [] \<Longrightarrow> fst (sys_open_w p w) \<and> faults (snd (sys_open_w p w)) = []
     \<and> files (snd (sys_open_w p w)) p \<noteq> None"
  by (simp add: sys_open_w_def take_fault_def log_op_def)

lemma sys_write_nf:
  "faults w = [] \<Longrightarrow> fst (sys_write p s w) \<and> faults (snd (sys_write p s w)) = []
     \<and> files (snd (sys_write p s w)) p \<noteq> None"
  by (simp add: sys_write_def take_fault_def log_op_def)

lemma sys_close_nf:
  "faults w = [] \<Longrightarrow> fst (sys_close p w) \<and> faults (snd (sys_close p w)) = []
     \<and> files (snd (sys_close p w)) = files w"
  by (simp add: sys_close_def take_fault_def log_op_def)

lemma sys_chmod_nf:
  "faults w = [] \<Longrightarrow> files w p \<noteq> None \<Longrightarrow>
     fst (sys_chmod p w) \<and> faults (snd (sys_chmod p w)) = [] \<and> files (snd (sys_chmod p w)) = files w"
  by (simp add: sys_chmod_def take_fault_def log_op_def file_exists_def)

lemma sys_replace_nf:
  "faults w = [] \<Longrightarrow> files w src \<noteq> None \<Longrightarrow>
     fst (sys_replace src dst w) \<and> faults (snd (sys_replace src dst w)) = []"
  by (auto simp: sys_replace_def take_fault_def log_op_def)

lemma write_lines_nf:
  "faults w = [] \<Longrightarrow> files w p \<noteq> None \<Longrightarrow>
     fst (write_lines p ls w) \<and> faults (snd (write_lines p ls w)) = []
     \<and> files (snd (write_lines p ls w)) p \<noteq> None"
proof (induction ls arbitrary: w)
  case Nil
  then show ?case by simp
next
  case (Cons l ls)
  obtain ok w1 where s: "sys_write p (l @ [LF]) w = (ok, w1)" by (cases "sys_write p (l @ [LF]) w")
  with sys_write_nf [OF Cons.prems(1), of p "l @ [LF]"]
  have k: "ok" "faults w1 = []" "files w1 p \<noteq> None" by simp_all
  from Cons.IH [OF k(2,3)] s k(1) show ?case by simp
qed

lemma commit_tmp_nf:
  assumes "faults w = []" "files w tmp \<noteq> None"
  shows "fst (commit_tmp tmp file w) \<and> faults (snd (commit_tmp tmp file w)) = []"
proof -
  obtain ok1 w1 where c: "sys_chmod tmp w = (ok1, w1)" by (cases "sys_chmod tmp w")
  with sys_chmod_nf [OF assms] have k1: ok1 "faults w1 = []" "files w1 tmp \<noteq> None"
    using assms(2) by simp_all
  obtain ok2 w2 where r: "sys_replace tmp file w1 = (ok2, w2)" by (cases "sys_replace tmp file w1")
  with sys_replace_nf [OF k1(2,3), of "file"] have k2: ok2 "faults w2 = []" by simp_all
  show ?thesis using c r k1(1) k2 by (simp add: commit_tmp_def)
qed

lemma atomic_write_lines_nf:
  assumes "faults w = []"
  shows "fst (atomic_write_lines file ls w) \<and> faults (snd (atomic_write_lines file ls w)) = []"
proof -
  let ?tmp = "file @ ''.tmp''"
  obtain ok1 w1 where o: "sys_open_w ?tmp w = (ok1, w1)" by (cases "sys_open_w ?tmp w")
  with sys_open_w_nf [OF assms, of ?tmp] have k1: ok1 "faults w1 = []" "files w1 ?tmp \<noteq> None"
    by simp_all
  obtain ok2 w2 where wl: "write_lines ?tmp ls w1 = (ok2, w2)" by (cases "write_lines ?tmp ls w1")
  with write_lines_nf [OF k1(2,3), of ls] have k2: ok2 "faults w2 = []" "files w2 ?tmp \<noteq> None"
    by simp_all
  obtain ok3 w3 where cl: "sys_close ?tmp w2 = (ok3, w3)" by (cases "sys_close ?tmp w2")
  with sys_close_nf [OF k2(2), of ?tmp] have k3: ok3 "faults w3 = []" "files w3 ?tmp \<noteq> None"
    using k2(3) by simp_all
  show ?thesis
    using o wl cl k1(1) k2(1) k3(1) commit_tmp_nf [OF k3(2,3), of "file"]
    by (simp add: atomic_write_lines_def Let_def split: prod.splits)
qed

lemma atomic_write_text_nf:
  assumes "faults w = []"
  shows "fst (atomic_write_text file text w) \<and> faults (snd (atomic_write_text file text w)) = []"
proof -
  let ?tmp = "file @ ''.tmp''"
  obtain ok1 w1 where o: "sys_open_w ?tmp w = (ok1, w1)" by (cases "sys_open_w ?tmp w")
  with sys_open_w_nf [OF assms, of ?tmp] have k1: ok1 "faults w1 = []" "files w1 ?tmp \<noteq> None"
    by simp_all
  obtain ok2 w2 where wl: "sys_write ?tmp text w1 = (ok2, w2)" by (cases "sys_write ?tmp text w1")
  with sys_write_nf [OF k1(2), of ?tmp "text"] have k2: ok2 "faults w2 = []" "files w2 ?tmp \<noteq> None"
    by simp_all
  obtain ok3 w3 where cl: "sys_close ?tmp w2 = (ok3, w3)" by (cases "sys_close ?tmp w2")
  with sys_close_nf [OF k2(2), of ?tmp] have k3: ok3 "faults w3 = []" "files w3 ?tmp \<noteq> None"
    using k2(3) by simp_all
  show ?thesis
    using o wl cl k1(1) k2(1) k3(1) commit_tmp_nf [OF k3(2,3), of "file"]
    by (simp add: atomic_write_text_def Let_def split: prod.splits)
qed

lemma sys_read_lines_nf:
  "faults w = [] \<Longrightarrow> files w p = Some c \<Longrightarrow> sys_read_lines p w = ((text_lines c, True), w)"
  by (simp add: sys_read_lines_def take_fault_def)

section \<open>The refresh of the store after an event\<close>

lemma update_line_cases:
  assumes "record_path data = Inr p"
  shows "update_line L ev src dest data w =
      (if ev = ''delete'' \<and> py_eq p (JStr src) then (Inr [], w)
       else if ev = ''move'' \<and> py_eq p (JStr src) \<and> given dest then
            (if path_exists w (the dest) then
               (case refreshed_line L (the dest) data w of
                  (Inl e, w1) \<Rightarrow> (Inl e, w1)
                | (Inr None, w1) \<Rightarrow> (Inr [], w1)
                | (Inr (Some l), w1) \<Rightarrow> (Inr [l], w1))
             else (Inr [], w))
       else if (ev = ''modify'' \<or> ev = ''add'') \<and> py_eq p (JStr src) then
            (if path_exists w src then
               (case refreshed_line L src data w of
                  (Inl e, w1) \<Rightarrow> (Inl e, w1)
                | (Inr None, w1) \<Rightarrow> (Inr [dumps L data], w1)
                | (Inr (Some l), w1) \<Rightarrow> (Inr [l], w1))
             else (Inr [dumps L data], w))
       else (Inr [dumps L data], w))"
  unfolding update_line_def given_def assms by simp

lemma update_line_vanished:
  assumes "ev = ''modify'' \<or> ev = ''add''" and "\<not> path_exists w src"
  shows "update_line L ev src dest data w =
     (case record_path data of Inl e \<Rightarrow> (Inl e, w) | Inr p \<Rightarrow> (Inr [dumps L data], w))"
proof (cases "record_path data")
  case (Inl e)
  then show ?thesis by (simp add: update_line_def)
next
  case (Inr p)
  have "ev \<noteq> ''delete''" "ev \<noteq> ''move''" using assms(1) by auto
  then show ?thesis using Inr assms(2) unfolding update_line_cases [OF Inr] by simp
qed

lemma update_line_delete:
  "update_line L ''delete'' src dest data w =
     (case record_path data of Inl e \<Rightarrow> (Inl e, w)
      | Inr p \<Rightarrow> (Inr (if py_eq p (JStr src) then [] else [dumps L data]), w))"
proof (cases "record_path data")
  case (Inl e)
  then show ?thesis by (simp add: update_line_def)
next
  case (Inr p)
  show ?thesis using Inr unfolding update_line_cases [OF Inr] by simp
qed

lemma update_loop_store_lines:
  assumes "\<And>data. update_line L ev src dest data w =
     (case record_path data of Inl e \<Rightarrow> (Inl e, w)
      | Inr p \<Rightarrow> (Inr (if gone p then [] else [dumps L data]), w))"
  shows "update_loop L ev src dest ls acc w =
     (case store_lines L gone ls of Inl e \<Rightarrow> Inl e | Inr ys \<Rightarrow> Inr (acc @ ys), w)"
proof (induction ls arbitrary: acc)
  case Nil
  then show ?case by simp
next
  case (Cons raw rest)
  show ?case
  proof (cases "strip raw = []")
    case True
    then show ?thesis using Cons.IH by simp
  next
    case False
    show ?thesis
    proof (cases "loads L (strip raw)")
      case None
      then show ?thesis using False Cons.IH [of "acc @ [strip raw]"]
        by (simp add: bind_exn_def split: sum.splits)
    next
      case (Some data)
      show ?thesis
      proof (cases "record_path data")
        case (Inl e)
        then show ?thesis using False Some assms by (simp add: bind_exn_def)
      next
        case (Inr p)
        then show ?thesis
          using False Some assms Cons.IH [of acc] Cons.IH [of "acc @ [dumps L data]"]
          by (simp add: bind_exn_def split: sum.splits)
      qed
    qed
  qed
qed

lemma update_loop_vanished:
  assumes "ev = ''modify'' \<or> ev = ''add''" and "\<not> path_exists w src"
  shows "update_loop L ev src dest ls acc w =
     (case store_lines L (\<lambda>p. False) ls of Inl e \<Rightarrow> Inl e | Inr ys \<Rightarrow> Inr (acc @ ys), w)"
  by (rule update_loop_store_lines) (simp add: update_line_vanished [OF assms])

lemma update_loop_delete:
  "update_loop L ''delete'' src dest ls acc w =
     (case store_lines L (\<lambda>p. py_eq p (JStr src)) ls of
        Inl e \<Rightarrow> Inl e | Inr ys \<Rightarrow> Inr (acc @ ys), w)"
  by (rule update_loop_store_lines) (simp add: update_line_delete)

text \<open>A record leaves the store only on a delete event, or on a move event with a
  destination that is missing or cannot be read.\<close>

lemma update_line_removes_iff:
  assumes "record_path data = Inr p"
  shows "fst (update_line L ev src dest data w) = Inr [] \<longleftrightarrow>
     py_eq p (JStr src) \<and>
       (ev = ''delete'' \<or>
        (ev = ''move'' \<and> given dest \<and>
           (\<not> path_exists w (the dest) \<or> fst (refreshed_line L (the dest) data w) = Inr None)))"
proof -
  define cd where "cd \<longleftrightarrow> ev = ''delete'' \<and> py_eq p (JStr src)"
  define cm where "cm \<longleftrightarrow> ev = ''move'' \<and> py_eq p (JStr src) \<and> given dest"
  define cx where "cx \<longleftrightarrow> (ev = ''modify'' \<or> ev = ''add'') \<and> py_eq p (JStr src)"
  have u: "update_line L ev src dest data w =
      (if cd then (Inr [], w)
       else if cm then
            (if path_exists w (the dest) then
               (case refreshed_line L (the dest) data w of
                  (Inl e, w1) \<Rightarrow> (Inl e, w1)
                | (Inr None, w1) \<Rightarrow> (Inr [], w1)
                | (Inr (Some l), w1) \<Rightarrow> (Inr [l], w1))
             else (Inr [], w))
       else if cx then
            (if path_exists w src then
               (case refreshed_line L src data w of
                  (Inl e, w1) \<Rightarrow> (Inl e, w1)
                | (Inr None, w1) \<Rightarrow> (Inr [dumps L data], w1)
                | (Inr (Some l), w1) \<Rightarrow> (Inr [l], w1))
             else (Inr [dumps L data], w))
       else (Inr [dumps L data], w))"
    unfolding update_line_cases [OF assms] cd_def cm_def cx_def by simp
  obtain r1 w1 where f1: "refreshed_line L (the dest) data w = (r1, w1)"
    by (cases "refreshed_line L (the dest) data w")
  obtain r2 w2 where f2: "refreshed_line L src data w = (r2, w2)"
    by (cases "refreshed_line L src data w")
  have "fst (update_line L ev src dest data w) = Inr [] \<longleftrightarrow>
      cd \<or> (cm \<and> (\<not> path_exists w (the dest) \<or> r1 = Inr None))"
    unfolding u f1 f2 by (auto split: sum.splits option.splits)
  moreover have "cd \<or> (cm \<and> (\<not> path_exists w (the dest) \<or> r1 = Inr None)) \<longleftrightarrow>
     py_eq p (JStr src) \<and>
       (ev = ''delete'' \<or>
        (ev = ''move'' \<and> given dest \<and>
           (\<not> path_exists w (the dest) \<or> fst (refreshed_line L (the dest) data w) = Inr None)))"
    unfolding cd_def cm_def f1 by auto
  ultimately show ?thesis by simp
qed

text \<open>Without failure of any call, the store holds the lines that the loop made.\<close>

lemma regenerate_event_index_store:
  assumes "separate_files fi fe"
  shows "files (snd (regenerate_event_index L fi fe w)) fi = files w fi"
proof -
  obtain r w' where g: "regenerate_event_index L fi fe w = (r, w')"
    by (cases "regenerate_event_index L fi fe w")
  show ?thesis
    using touches_files_other [OF regenerate_event_index_touches [OF g]
        separate_filesD(1) [OF assms]] g by simp
qed

lemma update_files_state_no_faults:
  assumes "faults w = []" and "files w fi = Some c" and "separate_files fi fe"
    and "update_loop L ev (abspath L src)
           (case dest of Some d \<Rightarrow> if d \<noteq> [] then Some (abspath L d) else None | None \<Rightarrow> None)
           (text_lines c) [] w = (Inr out, w2)"
    and "faults w2 = []"
  shows "files (snd (update_files_state L fi fe ev src dest w)) fi = Some (unlines out)"
proof -
  have e: "file_exists w fi" using assms(2) by (simp add: file_exists_def)
  note rd = sys_read_lines_nf [OF assms(1,2)]
  obtain ok3 w3 where a: "atomic_write_lines fi out w2 = (ok3, w3)"
    by (cases "atomic_write_lines fi out w2")
  from atomic_write_lines_nf [OF assms(5), of fi out] a have ok3 by simp
  then have f3: "files w3 fi = Some (unlines out)"
    using atomic_write_lines_eff(2) [OF a] by simp
  obtain r4 w4 where g: "regenerate_event_index L fi fe w3 = (r4, w4)"
    by (cases "regenerate_event_index L fi fe w3")
  have f4: "files w4 fi = files w3 fi"
    using regenerate_event_index_store [OF assms(3), of L w3] g by simp
  have "files (snd (update_files_state L fi fe ev src dest w)) fi = files w4 fi"
    using e rd assms(4) a \<open>ok3\<close> g
    by (cases r4) (simp_all add: update_files_state_def Let_def)
  then show ?thesis using f3 f4 by simp
qed

lemma update_line_unreadable:
  assumes "record_path data = Inr p" and "ev = ''modify'' \<or> ev = ''add''"
    and "py_eq p (JStr src)" and "fst (load_file_info L src w) = Inl e"
  shows "fst (update_line L ev src dest data w) = Inr [dumps L data]"
proof -
  obtain w1 where l: "load_file_info L src w = (Inl e, w1)"
    using assms(4) by (cases "load_file_info L src w") simp
  then have r: "refreshed_line L src data w = (Inr None, w1)" by (simp add: refreshed_line_def)
  have "ev \<noteq> ''delete''" "ev \<noteq> ''move''" using assms(2) by auto
  then show ?thesis using assms(2,3) r unfolding update_line_cases [OF assms(1)] by simp
qed

text \<open>
  Claim C9, as the code has it. When no call fails and the path of a modify or add
  event no longer exists, the store is rewritten with every record as it was parsed,
  the record of the path included; on a delete event it is rewritten without the
  records of the path. For one record: it is written back as parsed when the path of a
  modify or add event is gone or cannot be read; and nothing is written for it exactly
  when it is the record of the path and the event is delete, or the event is move with
  a destination that does not exist or cannot be read.
\<close>

theorem refresh_keeps_record_of_vanished_path:
  "(faults w = [] \<and> files w fi = Some c \<and> separate_files fi fe
      \<and> (ev = ''modify'' \<or> ev = ''add'') \<and> \<not> path_exists w (abspath L src)
      \<and> store_lines L (\<lambda>p. False) (text_lines c) = Inr out
      \<longrightarrow> files (snd (update_files_state L fi fe ev src dest w)) fi = Some (unlines out))
   \<and> (faults w = [] \<and> files w fi = Some c \<and> separate_files fi fe
      \<and> store_lines L (\<lambda>p. py_eq p (JStr (abspath L src))) (text_lines c) = Inr out
      \<longrightarrow> files (snd (update_files_state L fi fe ''delete'' src dest w)) fi = Some (unlines out))
   \<and> (record_path data = Inr p \<and> (ev = ''modify'' \<or> ev = ''add'') \<and> \<not> path_exists w sp
      \<longrightarrow> update_line L ev sp dp data w = (Inr [dumps L data], w))
   \<and> (record_path data = Inr p \<and> (ev = ''modify'' \<or> ev = ''add'') \<and> py_eq p (JStr sp)
        \<and> fst (load_file_info L sp w) = Inl e
      \<longrightarrow> fst (update_line L ev sp dp data w) = Inr [dumps L data])
   \<and> (record_path data = Inr p \<longrightarrow>
        (fst (update_line L ev sp dp data w) = Inr [] \<longleftrightarrow>
           py_eq p (JStr sp) \<and>
             (ev = ''delete'' \<or>
              (ev = ''move'' \<and> given dp \<and>
                 (\<not> path_exists w (the dp)
                  \<or> fst (refreshed_line L (the dp) data w) = Inr None)))))"
proof -
  let ?dest = "case dest of Some d \<Rightarrow> if d \<noteq> [] then Some (abspath L d) else None | None \<Rightarrow> None"
  have A: "faults w = [] \<and> files w fi = Some c \<and> separate_files fi fe
      \<and> (ev = ''modify'' \<or> ev = ''add'') \<and> \<not> path_exists w (abspath L src)
      \<and> store_lines L (\<lambda>p. False) (text_lines c) = Inr out
      \<longrightarrow> files (snd (update_files_state L fi fe ev src dest w)) fi = Some (unlines out)"
  proof
    assume h: "faults w = [] \<and> files w fi = Some c \<and> separate_files fi fe
      \<and> (ev = ''modify'' \<or> ev = ''add'') \<and> \<not> path_exists w (abspath L src)
      \<and> store_lines L (\<lambda>p. False) (text_lines c) = Inr out"
    then have l: "update_loop L ev (abspath L src) ?dest (text_lines c) [] w = (Inr out, w)"
      using update_loop_vanished [of ev w "abspath L src" L ?dest "text_lines c" "[]"] by simp
    from h update_files_state_no_faults [OF _ _ _ l]
    show "files (snd (update_files_state L fi fe ev src dest w)) fi = Some (unlines out)" by simp
  qed
  have B: "faults w = [] \<and> files w fi = Some c \<and> separate_files fi fe
      \<and> store_lines L (\<lambda>p. py_eq p (JStr (abspath L src))) (text_lines c) = Inr out
      \<longrightarrow> files (snd (update_files_state L fi fe ''delete'' src dest w)) fi = Some (unlines out)"
  proof
    assume h: "faults w = [] \<and> files w fi = Some c \<and> separate_files fi fe
      \<and> store_lines L (\<lambda>p. py_eq p (JStr (abspath L src))) (text_lines c) = Inr out"
    then have l: "update_loop L ''delete'' (abspath L src) ?dest (text_lines c) [] w = (Inr out, w)"
      using update_loop_delete [of L "abspath L src" ?dest "text_lines c" "[]" w] by simp
    from h update_files_state_no_faults [OF _ _ _ l]
    show "files (snd (update_files_state L fi fe ''delete'' src dest w)) fi = Some (unlines out)"
      by simp
  qed
  have C: "record_path data = Inr p \<and> (ev = ''modify'' \<or> ev = ''add'') \<and> \<not> path_exists w sp
      \<longrightarrow> update_line L ev sp dp data w = (Inr [dumps L data], w)"
  proof
    assume h: "record_path data = Inr p \<and> (ev = ''modify'' \<or> ev = ''add'') \<and> \<not> path_exists w sp"
    then show "update_line L ev sp dp data w = (Inr [dumps L data], w)"
      using update_line_vanished [of ev w sp L dp data] by simp
  qed
  have D: "record_path data = Inr p \<and> (ev = ''modify'' \<or> ev = ''add'') \<and> py_eq p (JStr sp)
        \<and> fst (load_file_info L sp w) = Inl e
      \<longrightarrow> fst (update_line L ev sp dp data w) = Inr [dumps L data]"
  proof
    assume h: "record_path data = Inr p \<and> (ev = ''modify'' \<or> ev = ''add'') \<and> py_eq p (JStr sp)
        \<and> fst (load_file_info L sp w) = Inl e"
    then show "fst (update_line L ev sp dp data w) = Inr [dumps L data]"
      using update_line_unreadable [of data p ev sp L w e dp] by simp
  qed
  have E: "record_path data = Inr p \<longrightarrow>
        (fst (update_line L ev sp dp data w) = Inr [] \<longleftrightarrow>
           py_eq p (JStr sp) \<and>
             (ev = ''delete'' \<or>
              (ev = ''move'' \<and> given dp \<and>
                 (\<not> path_exists w (the dp)
                  \<or> fst (refreshed_line L (the dp) data w) = Inr None))))"
  proof
    assume "record_path data = Inr p"
    then show "fst (update_line L ev sp dp data w) = Inr [] \<longleftrightarrow>
           py_eq p (JStr sp) \<and>
             (ev = ''delete'' \<or>
              (ev = ''move'' \<and> given dp \<and>
                 (\<not> path_exists w (the dp)
                  \<or> fst (refreshed_line L (the dp) data w) = Inr None)))"
      by (rule update_line_removes_iff)
  qed
  show ?thesis by (rule conjI [OF A conjI [OF B conjI [OF C conjI [OF D E]]]])
qed

lemma store_lines_example:
  "store_lines demo_lib (\<lambda>p. False) [line_a @ [LF], line_bad @ [LF], line_b @ [LF]]
     = Inr [line_a, line_bad, line_b]"
  "store_lines demo_lib (\<lambda>p. py_eq p (JStr ''/srv/a'')) [line_a @ [LF], line_bad @ [LF], line_b @ [LF]]
     = Inr [line_bad, line_b]"
  by (simp_all add: demo_lib_def record_path_def bind_exn_def rec_a_def rec_b_def py_eq_def)

theorem refresh_keeps_record_of_vanished_path_witness:
  "\<not> path_exists world0 ''/srv/a''
   \<and> files (snd (update_files_state demo_lib store_path index_path ''modify'' ''/srv/a'' None world0))
        store_path = Some (unlines [line_a, line_bad, line_b])
   \<and> files (snd (update_files_state demo_lib store_path index_path ''delete'' ''/srv/a'' None world0))
        store_path = Some (unlines [line_bad, line_b])
   \<and> update_line demo_lib ''add'' ''/srv/a'' None rec_a world0 = (Inr [line_a], world0)
   \<and> fst (update_line demo_lib ''delete'' ''/srv/a'' None rec_a world0) = Inr []"
proof -
  have f: "faults world0 = []" "files world0 store_path
      = Some (line_a @ [LF] @ line_bad @ [LF] @ line_b @ [LF])"
    "\<not> path_exists world0 ''/srv/a''"
    by (simp_all add: world0_def path_exists_def)
  have s: "separate_files store_path index_path" by (simp add: separate_files_def)
  have a: "abspath demo_lib ''/srv/a'' = ''/srv/a''" by (simp add: demo_lib_def)
  have r: "record_path rec_a = Inr (JStr ''/srv/a'')"
    by (simp add: record_path_def bind_exn_def rec_a_def)
  have d: "dumps demo_lib rec_a = line_a" by (simp add: demo_lib_def)
  have g: "\<not> given None" by (simp add: given_def)
  note t1 = refresh_keeps_record_of_vanished_path [where w = world0 and fi = store_path
      and fe = index_path and c = "line_a @ [LF] @ line_bad @ [LF] @ line_b @ [LF]"
      and ev = "''modify''" and L = demo_lib and src = "''/srv/a''" and dest = None
      and out = "[line_a, line_bad, line_b]"]
  note t2 = refresh_keeps_record_of_vanished_path [where w = world0 and fi = store_path
      and fe = index_path and c = "line_a @ [LF] @ line_bad @ [LF] @ line_b @ [LF]"
      and L = demo_lib and src = "''/srv/a''" and dest = None
      and out = "[line_bad, line_b]"]
  note t3 = refresh_keeps_record_of_vanished_path [where w = world0 and ev = "''add''"
      and L = demo_lib and data = rec_a and p = "JStr ''/srv/a''" and sp = "''/srv/a''"
      and dp = None]
  note t4 = refresh_keeps_record_of_vanished_path [where w = world0 and ev = "''delete''"
      and L = demo_lib and data = rec_a and p = "JStr ''/srv/a''" and sp = "''/srv/a''"
      and dp = None]
  have m: "files (snd (update_files_state demo_lib store_path index_path ''modify'' ''/srv/a'' None world0))
        store_path = Some (unlines [line_a, line_bad, line_b])"
    using t1 f s a store_lines_example(1) text_lines_store by simp
  have dl: "files (snd (update_files_state demo_lib store_path index_path ''delete'' ''/srv/a'' None world0))
        store_path = Some (unlines [line_bad, line_b])"
    using t2 f s a store_lines_example(2) text_lines_store by simp
  have ad: "update_line demo_lib ''add'' ''/srv/a'' None rec_a world0 = (Inr [line_a], world0)"
    using t3 r f(3) d by simp
  have de: "fst (update_line demo_lib ''delete'' ''/srv/a'' None rec_a world0) = Inr []"
    using t4 r by (simp add: py_eq_def)
  from f(3) m dl ad de show ?thesis by simp
qed

text \<open>
  Claim C9 as it is stated fails in its last part: a record is removed on another
  event kind than delete. On a move event with a destination that does not exist the
  record of the moved path is left out of the rewritten store.
\<close>

theorem refresh_removes_on_move_counterexample:
  "fst (update_line demo_lib ''move'' ''/srv/a'' (Some ''/srv/moved'') rec_a world0) = Inr []
   \<and> files (snd (update_files_state demo_lib store_path index_path ''move'' ''/srv/a''
                   (Some ''/srv/moved'') world0)) store_path
        = Some (unlines [line_bad, line_b])"
proof -
  have f: "faults world0 = []" "files world0 store_path
      = Some (line_a @ [LF] @ line_bad @ [LF] @ line_b @ [LF])"
    by (simp_all add: world0_def)
  have s: "separate_files store_path index_path" by (simp add: separate_files_def)
  have a: "abspath demo_lib ''/srv/a'' = ''/srv/a''" "abspath demo_lib ''/srv/moved'' = ''/srv/moved''"
    by (simp_all add: demo_lib_def)
  have pe: "\<not> path_exists world0 ''/srv/moved''" by (simp add: world0_def path_exists_def)
  have u: "update_line demo_lib ''move'' ''/srv/a'' (Some ''/srv/moved'') rec_a world0 = (Inr [], world0)"
    using pe by (simp add: update_line_def record_path_def bind_exn_def rec_a_def py_eq_def)
  have ub: "update_line demo_lib ''move'' ''/srv/a'' (Some ''/srv/moved'') rec_b world0
      = (Inr [line_b], world0)"
    by (simp add: update_line_def record_path_def bind_exn_def rec_a_def rec_b_def py_eq_def
        demo_lib_def)
  have l: "update_loop demo_lib ''move'' (abspath demo_lib ''/srv/a'')
      (case Some ''/srv/moved'' of Some d \<Rightarrow> if d \<noteq> [] then Some (abspath demo_lib d) else None
       | None \<Rightarrow> None)
      (text_lines (line_a @ [LF] @ line_bad @ [LF] @ line_b @ [LF])) [] world0
      = (Inr [line_bad, line_b], world0)"
    unfolding text_lines_store a using u ub by (simp add: demo_lib_def)
  from update_files_state_no_faults [OF f(1) f(2) s l f(1)] u show ?thesis by simp
qed

section \<open>Configuration changes and the event index\<close>

lemma regenerate_event_index_success:
  assumes "regenerate_event_index L fi fe w = (Inr u, w')"
  shows "\<exists>mon. files w' fe = Some (dump_dict L mon)
     \<and> trace w' = trace w @ rewrite_ops fe [dump_dict L mon]"
proof -
  define pre where "pre = (if file_exists w fi
            then (case sys_read_lines fi w of
                    ((lines, ok), w1) \<Rightarrow> (index_loop L lines [], w1))
            else (Inr [], w))"
  obtain m w1 where p: "pre = (m, w1)" by (cases pre)
  have t1: "trace w1 = trace w"
  proof (cases "file_exists w fi")
    case True
    obtain ls ok w0 where rd: "sys_read_lines fi w = ((ls, ok), w0)"
      by (cases "sys_read_lines fi w") auto
    with True p have "w1 = w0" by (simp add: pre_def)
    then show ?thesis using sys_read_lines_eff(2) [OF rd] by simp
  next
    case False
    with p show ?thesis by (simp add: pre_def)
  qed
  show ?thesis
  proof (cases m)
    case (Inl e)
    then show ?thesis using assms p by (simp add: regenerate_event_index_def pre_def [symmetric])
  next
    case (Inr mon)
    obtain ok w2 where a: "atomic_write_text fe (dump_dict L mon) w1 = (ok, w2)"
      by (cases "atomic_write_text fe (dump_dict L mon) w1")
    then have "ok \<and> w' = w2" using assms p Inr
      by (cases ok) (simp_all add: regenerate_event_index_def pre_def [symmetric])
    then show ?thesis using atomic_write_text_eff(2) [OF a] t1 by auto
  qed
qed

lemma set_conf_outcomes:
  assumes "set_conf L path c fi fe w = (r, w')" and "separate_files fi fe"
  shows "set_conf_outcome L fi fe w r w'"
proof (cases "file_exists w fi")
  case False
  with assms show ?thesis by (auto simp: set_conf_def set_conf_outcome_def)
next
  case True
  obtain ls ok w1 where rd: "sys_read_lines fi w = ((ls, ok), w1)"
    by (cases "sys_read_lines fi w") auto
  note re = sys_read_lines_eff [OF rd]
  show ?thesis
  proof (cases "set_conf_loop L (abspath L path) c ls [] False")
    case (Inl e)
    with assms True rd have "w' = w1" "r = Inl e" by (simp_all add: set_conf_def)
    then show ?thesis using re by (simp add: set_conf_outcome_def)
  next
    case (Inr res)
    obtain updated_lines updated where res: "res = (updated_lines, updated)" by (cases res)
    show ?thesis
    proof (cases "ok \<and> updated")
      case False
      with assms True rd Inr res have "w' = w1" "r = Inr False"
        by (auto simp: set_conf_def split: if_splits)
      then show ?thesis using re by (simp add: set_conf_outcome_def)
    next
      case T: True
      obtain ok2 w2 where a: "atomic_write_lines fi updated_lines w1 = (ok2, w2)"
        by (cases "atomic_write_lines fi updated_lines w1")
      show ?thesis
      proof (cases ok2)
        case False
        then have e: "files w' = files w2" "r = Inr False"
          using assms True rd Inr res T a by (auto simp: set_conf_def)
        have "touches {fi @ ''.tmp''} w1 w2" using atomic_write_lines_eff(3) [OF a] False by simp
        then have "files w2 fi = files w1 fi" by (rule touches_files_other) simp
        then show ?thesis using e re by (simp add: set_conf_outcome_def)
      next
        case T2: True
        have sw: "store_written fi updated_lines w w2"
          using atomic_write_lines_eff(2) [OF a] T2 re by (simp add: store_written_def)
        obtain r3 w3 where g: "regenerate_event_index L fi fe w2 = (r3, w3)"
          by (cases "regenerate_event_index L fi fe w2")
        have f3: "files w3 fi = Some (unlines updated_lines)"
          using regenerate_event_index_store [OF assms(2), of L w2] g sw
          by (simp add: store_written_def)
        show ?thesis
        proof (cases r3)
          case (Inl e)
          then have "r = Inr False" "w' = print MsgErrRegenerating w3"
            using assms True rd Inr res T a T2 g by (auto simp: set_conf_def)
          then show ?thesis using sw g Inl f3 unfolding set_conf_outcome_def
            by (intro disjI2 exI [of _ updated_lines] exI [of _ w2]) simp
        next
          case (Inr u)
          then have "r = Inr True" "w' = w3"
            using assms True rd \<open>set_conf_loop L (abspath L path) c ls [] False = Inr res\<close>
              res T a T2 g by (auto simp: set_conf_def)
          then show ?thesis using sw g Inr f3 unfolding set_conf_outcome_def
            by (intro disjI2 exI [of _ updated_lines] exI [of _ w2]) simp
        qed
      qed
    qed
  qed
qed

text \<open>
  Claim C6. A run of \<open>set_conf\<close> ends in one of three ways: the store is as before
  and the result is not \<open>True\<close>; the store was rewritten, the index was regenerated
  after that, and the result is \<open>True\<close>; or the store was rewritten, the regeneration
  raised, and the result is \<open>False\<close> with the new store in place. So \<open>True\<close> is returned
  only after the index file was replaced by a regenerated one.
\<close>

theorem set_conf_regenerates_index:
  "separate_files fi fe \<and> set_conf L path c fi fe w = (r, w') \<longrightarrow>
     set_conf_outcome L fi fe w r w'
     \<and> (r = Inr True \<longrightarrow>
          (\<exists>ls wm mon. store_written fi ls w wm \<and> files w' fi = Some (unlines ls)
             \<and> files w' fe = Some (dump_dict L mon)
             \<and> trace w' = trace wm @ rewrite_ops fe [dump_dict L mon]))"
proof
  assume h: "separate_files fi fe \<and> set_conf L path c fi fe w = (r, w')"
  then have o: "set_conf_outcome L fi fe w r w'" using set_conf_outcomes by blast
  have "r = Inr True \<longrightarrow>
          (\<exists>ls wm mon. store_written fi ls w wm \<and> files w' fi = Some (unlines ls)
             \<and> files w' fe = Some (dump_dict L mon)
             \<and> trace w' = trace wm @ rewrite_ops fe [dump_dict L mon])"
  proof
    assume t: "r = Inr True"
    with o obtain ls wm u where k: "store_written fi ls w wm" "files w' fi = Some (unlines ls)"
      "regenerate_event_index L fi fe wm = (Inr u, w')"
      unfolding set_conf_outcome_def by auto
    from regenerate_event_index_success [OF k(3)] obtain mon where
      "files w' fe = Some (dump_dict L mon)" "trace w' = trace wm @ rewrite_ops fe [dump_dict L mon]"
      by blast
    with k show "\<exists>ls wm mon. store_written fi ls w wm \<and> files w' fi = Some (unlines ls)
             \<and> files w' fe = Some (dump_dict L mon)
             \<and> trace w' = trace wm @ rewrite_ops fe [dump_dict L mon]" by blast
  qed
  with o show "set_conf_outcome L fi fe w r w'
     \<and> (r = Inr True \<longrightarrow>
          (\<exists>ls wm mon. store_written fi ls w wm \<and> files w' fi = Some (unlines ls)
             \<and> files w' fe = Some (dump_dict L mon)
             \<and> trace w' = trace wm @ rewrite_ops fe [dump_dict L mon]))" by simp
qed

lemma strip_line_email [simp]: "strip (line_a_email @ [LF]) = line_a_email"
  by (simp add: strip_def is_space_def line_a_email_def LF_def)

lemma text_lines_changed:
  "text_lines (unlines [line_a_email, line_bad, line_b])
     = [line_a_email @ [LF], line_bad @ [LF], line_b @ [LF]]"
  by (simp add: unlines_def text_lines_def line_a_email_def line_b_def line_bad_def LF_def CR_def)

lemma set_conf_loop_example:
  "set_conf_loop demo_lib ''/srv/a'' set_alert_email
     [line_a @ [LF], line_bad @ [LF], line_b @ [LF]] [] False
   = Inr ([line_a_email, line_bad, line_b], True)"
  by (simp add: demo_lib_def set_conf_line_def record_path_def bind_exn_def rec_a_def rec_b_def
      rec_a_email_def py_eq_def change_monitoring_def set_alert_email_def)

lemma index_loop_example:
  "index_loop demo_lib [line_a_email @ [LF], line_bad @ [LF], line_b @ [LF]] []
     = Inr index_after_change"
  by (simp add: demo_lib_def record_path_def bind_exn_def rec_a_def rec_b_def
      rec_a_email_def py_eq_def py_dict_set_def index_after_change_def)

lemma regenerate_event_index_nf:
  assumes "faults w = []" and "files w fi = Some c"
    and "index_loop L (text_lines c) [] = Inr mon"
  shows "fst (regenerate_event_index L fi fe w) = Inr ()"
    and "faults (snd (regenerate_event_index L fi fe w)) = []"
    and "files (snd (regenerate_event_index L fi fe w)) fe = Some (dump_dict L mon)"
proof -
  have e: "file_exists w fi" using assms(2) by (simp add: file_exists_def)
  note rd = sys_read_lines_nf [OF assms(1,2)]
  obtain ok w2 where a: "atomic_write_text fe (dump_dict L mon) w = (ok, w2)"
    by (cases "atomic_write_text fe (dump_dict L mon) w")
  from atomic_write_text_nf [OF assms(1), of fe "dump_dict L mon"] a
  have k: ok "faults w2 = []" by simp_all
  have r: "regenerate_event_index L fi fe w = (Inr (), w2)"
    using e rd assms(3) a k(1) by (simp add: regenerate_event_index_def)
  show "fst (regenerate_event_index L fi fe w) = Inr ()"
    and "faults (snd (regenerate_event_index L fi fe w)) = []"
    and "files (snd (regenerate_event_index L fi fe w)) fe = Some (dump_dict L mon)"
    using r k atomic_write_text_eff(2) [OF a] by simp_all
qed

lemma set_conf_nf:
  assumes "faults w = []" and "files w fi = Some c" and "separate_files fi fe"
    and "set_conf_loop L (abspath L path) ch (text_lines c) [] False = Inr (ls, True)"
    and "index_loop L (text_lines (unlines ls)) [] = Inr mon"
  shows "fst (set_conf L path ch fi fe w) = Inr True"
    and "files (snd (set_conf L path ch fi fe w)) fi = Some (unlines ls)"
    and "files (snd (set_conf L path ch fi fe w)) fe = Some (dump_dict L mon)"
proof -
  have e: "file_exists w fi" using assms(2) by (simp add: file_exists_def)
  note rd = sys_read_lines_nf [OF assms(1,2)]
  obtain ok2 w2 where a: "atomic_write_lines fi ls w = (ok2, w2)"
    by (cases "atomic_write_lines fi ls w")
  from atomic_write_lines_nf [OF assms(1), of fi ls] a have k: ok2 "faults w2 = []" by simp_all
  have f2: "files w2 fi = Some (unlines ls)" using atomic_write_lines_eff(2) [OF a] k(1) by simp
  note g = regenerate_event_index_nf [OF k(2) f2 assms(5), of fe]
  obtain r3 w3 where g3: "regenerate_event_index L fi fe w2 = (r3, w3)"
    by (cases "regenerate_event_index L fi fe w2")
  have r3: "r3 = Inr ()" using g(1) g3 by simp
  have s: "set_conf L path ch fi fe w = (Inr True, w3)"
    using e rd assms(4) a k(1) g3 r3 by (simp add: set_conf_def Let_def)
  have f3: "files w3 fi = files w2 fi"
    using regenerate_event_index_store [OF assms(3), of L w2] g3 by simp
  show "fst (set_conf L path ch fi fe w) = Inr True"
    and "files (snd (set_conf L path ch fi fe w)) fi = Some (unlines ls)"
    and "files (snd (set_conf L path ch fi fe w)) fe = Some (dump_dict L mon)"
    using s f3 f2 g(3) g3 by simp_all
qed

lemma set_conf_index_fails_example:
  "fst (set_conf demo_lib ''/srv/a'' set_alert_email store_path index_path world_index_fails)
     = Inr False"
  "files (snd (set_conf demo_lib ''/srv/a'' set_alert_email store_path index_path world_index_fails))
     store_path = Some (unlines [line_a_email, line_bad, line_b])"
  "files (snd (set_conf demo_lib ''/srv/a'' set_alert_email store_path index_path world_index_fails))
     index_path = None"
proof -
  have a: "abspath demo_lib ''/srv/a'' = ''/srv/a''" by (simp add: demo_lib_def)
  define w1 where "w1 = world0\<lparr>faults := [Succeeds, Succeeds, Succeeds, Succeeds, Succeeds, Succeeds, Succeeds, Succeeds, Fails 0]\<rparr>"
  define w2 where "w2 = world0\<lparr>faults := [Succeeds, Fails 0],
      files := ((files world0)(store_path @ ''.tmp'' := None))
                 (store_path \<mapsto> unlines [line_a_email, line_bad, line_b]),
      trace := rewrite_ops store_path [line_a_email @ [LF], line_bad @ [LF], line_b @ [LF]]\<rparr>"
  define w3 where "w3 = w2\<lparr>faults := [Fails 0]\<rparr>"
  define w4 where "w4 = w2\<lparr>faults := [],
      trace := trace w2 @ [(OpOpenW (index_path @ ''.tmp''), False)]\<rparr>"
  have e: "file_exists world_index_fails store_path"
    by (simp add: file_exists_def world0_def world_index_fails_def)
  have r: "sys_read_lines store_path world_index_fails
     = (([line_a @ [LF], line_bad @ [LF], line_b @ [LF]], True), w1)"
    using text_lines_store
    by (simp add: sys_read_lines_def take_fault_def world0_def world_index_fails_def w1_def)
  have w: "atomic_write_lines store_path [line_a_email, line_bad, line_b] w1 = (True, w2)"
    by (simp add: atomic_write_lines_def Let_def sys_open_w_def sys_write_def sys_close_def
        commit_tmp_def sys_chmod_def sys_replace_def take_fault_def log_op_def world0_def
        w1_def w2_def content_of_def file_exists_def rewrite_ops_def unlines_def)
  have e2: "file_exists w2 store_path" by (simp add: file_exists_def w2_def)
  have r2: "sys_read_lines store_path w2
     = (([line_a_email @ [LF], line_bad @ [LF], line_b @ [LF]], True), w3)"
    using text_lines_changed
    by (simp add: sys_read_lines_def take_fault_def w2_def w3_def)
  have x: "atomic_write_text index_path (dump_dict demo_lib index_after_change) w3 = (False, w4)"
    by (simp add: atomic_write_text_def Let_def sys_open_w_def cleanup_tmp_def take_fault_def
        log_op_def w2_def w3_def w4_def world0_def file_exists_def)
  have g: "regenerate_event_index demo_lib store_path index_path w2 = (Inl OSError, w4)"
    using e2 r2 index_loop_example x by (simp add: regenerate_event_index_def)
  have s: "set_conf demo_lib ''/srv/a'' set_alert_email store_path index_path world_index_fails
     = (Inr False, print MsgErrRegenerating w4)"
    unfolding set_conf_def Let_def a using e r set_conf_loop_example w g by simp
  show "fst (set_conf demo_lib ''/srv/a'' set_alert_email store_path index_path world_index_fails)
     = Inr False"
    "files (snd (set_conf demo_lib ''/srv/a'' set_alert_email store_path index_path world_index_fails))
     store_path = Some (unlines [line_a_email, line_bad, line_b])"
    "files (snd (set_conf demo_lib ''/srv/a'' set_alert_email store_path index_path world_index_fails))
     index_path = None"
    unfolding s by (simp_all add: w4_def w2_def world0_def)
qed

theorem set_conf_regenerates_index_witness:
  "separate_files store_path index_path
   \<and> set_conf_outcome demo_lib store_path index_path world0
        (fst (set_conf demo_lib ''/srv/a'' set_alert_email store_path index_path world0))
        (snd (set_conf demo_lib ''/srv/a'' set_alert_email store_path index_path world0))
   \<and> fst (set_conf demo_lib ''/srv/a'' set_alert_email store_path index_path world0) = Inr True
   \<and> files (snd (set_conf demo_lib ''/srv/a'' set_alert_email store_path index_path world0))
        store_path = Some (unlines [line_a_email, line_bad, line_b])
   \<and> files (snd (set_conf demo_lib ''/srv/a'' set_alert_email store_path index_path world0))
        index_path = Some (dump_dict demo_lib index_after_change)
   \<and> set_conf_outcome demo_lib store_path index_path world_index_fails
        (fst (set_conf demo_lib ''/srv/a'' set_alert_email store_path index_path world_index_fails))
        (snd (set_conf demo_lib ''/srv/a'' set_alert_email store_path index_path world_index_fails))
   \<and> fst (set_conf demo_lib ''/srv/a'' set_alert_email store_path index_path world_index_fails)
        = Inr False
   \<and> files (snd (set_conf demo_lib ''/srv/a'' set_alert_email store_path index_path
                   world_index_fails)) store_path
        = Some (unlines [line_a_email, line_bad, line_b])
   \<and> files (snd (set_conf demo_lib ''/srv/a'' set_alert_email store_path index_path
                   world_index_fails)) index_path = None"
proof -
  have s: "separate_files store_path index_path" by (simp add: separate_files_def)
  have f: "faults world0 = []" "files world0 store_path
      = Some (line_a @ [LF] @ line_bad @ [LF] @ line_b @ [LF])"
    by (simp_all add: world0_def)
  have a: "abspath demo_lib ''/srv/a'' = ''/srv/a''" by (simp add: demo_lib_def)
  have l: "set_conf_loop demo_lib (abspath demo_lib ''/srv/a'') set_alert_email
     (text_lines (line_a @ [LF] @ line_bad @ [LF] @ line_b @ [LF])) [] False
     = Inr ([line_a_email, line_bad, line_b], True)"
    unfolding a text_lines_store by (rule set_conf_loop_example)
  have i: "index_loop demo_lib (text_lines (unlines [line_a_email, line_bad, line_b])) []
     = Inr index_after_change"
    unfolding text_lines_changed by (rule index_loop_example)
  note n = set_conf_nf [OF f s l i]
  note t1 = set_conf_regenerates_index [where fi = store_path and fe = index_path
      and L = demo_lib and w = world0 and path = "''/srv/a''" and c = set_alert_email
      and r = "fst (set_conf demo_lib ''/srv/a'' set_alert_email store_path index_path world0)"
      and w' = "snd (set_conf demo_lib ''/srv/a'' set_alert_email store_path index_path world0)"]
  note t2 = set_conf_regenerates_index [where fi = store_path and fe = index_path
      and L = demo_lib and w = world_index_fails and path = "''/srv/a''" and c = set_alert_email
      and r = "fst (set_conf demo_lib ''/srv/a'' set_alert_email store_path index_path
                  world_index_fails)"
      and w' = "snd (set_conf demo_lib ''/srv/a'' set_alert_email store_path index_path
                  world_index_fails)"]
  from t1 s have o1: "set_conf_outcome demo_lib store_path index_path world0
        (fst (set_conf demo_lib ''/srv/a'' set_alert_email store_path index_path world0))
        (snd (set_conf demo_lib ''/srv/a'' set_alert_email store_path index_path world0))"
    by simp
  from t2 s have o2: "set_conf_outcome demo_lib store_path index_path world_index_fails
        (fst (set_conf demo_lib ''/srv/a'' set_alert_email store_path index_path world_index_fails))
        (snd (set_conf demo_lib ''/srv/a'' set_alert_email store_path index_path world_index_fails))"
    by simp
  show ?thesis
    using s o1 n o2 set_conf_index_fails_example by (intro conjI)
qed

section \<open>Regeneration of the index is idempotent\<close>

lemma regenerate_event_index_nf_cases:
  assumes "faults w = []"
  shows "regenerate_event_index L fi fe w =
     (case index_of_store L (files w fi) of
        Inl e \<Rightarrow> (Inl e, w)
      | Inr mon \<Rightarrow> (Inr (), snd (atomic_write_text fe (dump_dict L mon) w)))"
proof (cases "files w fi")
  case None
  then have e: "\<not> file_exists w fi" by (simp add: file_exists_def)
  obtain ok w2 where a: "atomic_write_text fe (dump_dict L []) w = (ok, w2)"
    by (cases "atomic_write_text fe (dump_dict L []) w")
  from atomic_write_text_nf [OF assms, of fe "dump_dict L []"] a have ok by simp
  then show ?thesis using None e a
    by (simp add: regenerate_event_index_def index_of_store_def)
next
  case (Some c)
  then have e: "file_exists w fi" by (simp add: file_exists_def)
  note rd = sys_read_lines_nf [OF assms Some]
  show ?thesis
  proof (cases "index_loop L (text_lines c) []")
    case (Inl ex)
    then show ?thesis using Some e rd
      by (simp add: regenerate_event_index_def index_of_store_def)
  next
    case (Inr mon)
    obtain ok w2 where a: "atomic_write_text fe (dump_dict L mon) w = (ok, w2)"
      by (cases "atomic_write_text fe (dump_dict L mon) w")
    from atomic_write_text_nf [OF assms, of fe "dump_dict L mon"] a have ok by simp
    then show ?thesis using Some e rd Inr a
      by (simp add: regenerate_event_index_def index_of_store_def)
  qed
qed

lemma regenerate_event_index_nf_index:
  assumes "faults w = []" and "index_of_store L (files w fi) = Inr mon"
  shows "files (snd (regenerate_event_index L fi fe w)) fe = Some (dump_dict L mon)"
    and "faults (snd (regenerate_event_index L fi fe w)) = []"
    and "fst (regenerate_event_index L fi fe w) = Inr ()"
proof -
  obtain ok w2 where a: "atomic_write_text fe (dump_dict L mon) w = (ok, w2)"
    by (cases "atomic_write_text fe (dump_dict L mon) w")
  from atomic_write_text_nf [OF assms(1), of fe "dump_dict L mon"] a
  have k: ok "faults w2 = []" by simp_all
  have r: "regenerate_event_index L fi fe w = (Inr (), w2)"
    using regenerate_event_index_nf_cases [OF assms(1), of L fi fe] assms(2) a by simp
  show "files (snd (regenerate_event_index L fi fe w)) fe = Some (dump_dict L mon)"
    and "faults (snd (regenerate_event_index L fi fe w)) = []"
    and "fst (regenerate_event_index L fi fe w) = Inr ()"
    using r k atomic_write_text_eff(2) [OF a] by simp_all
qed

text \<open>
  Claim C8. When no call fails and the store is another file than the index and its
  temporary sibling, a second regeneration right after the first returns as the first
  did and leaves the index file with the same content, the store being as it was; and
  the content of the index file after a regeneration that returned is a function of
  the content of the store alone.
\<close>

theorem regenerate_event_index_idempotent:
  "faults w = [] \<and> separate_files fi fe \<longrightarrow>
     fst (regenerate_event_index L fi fe (snd (regenerate_event_index L fi fe w)))
       = fst (regenerate_event_index L fi fe w)
     \<and> files (snd (regenerate_event_index L fi fe (snd (regenerate_event_index L fi fe w)))) fe
       = files (snd (regenerate_event_index L fi fe w)) fe
     \<and> files (snd (regenerate_event_index L fi fe (snd (regenerate_event_index L fi fe w)))) fi
       = files w fi
     \<and> (\<forall>v::world. faults v = [] \<and> files v fi = files w fi
            \<and> fst (regenerate_event_index L fi fe w) = Inr () \<longrightarrow>
            files (snd (regenerate_event_index L fi fe v)) fe
              = files (snd (regenerate_event_index L fi fe w)) fe)"
proof
  assume h: "faults w = [] \<and> separate_files fi fe"
  then have f: "faults w = []" and s: "separate_files fi fe" by simp_all
  let ?w1 = "snd (regenerate_event_index L fi fe w)"
  have st: "files ?w1 fi = files w fi" using regenerate_event_index_store [OF s] .
  have A: "fst (regenerate_event_index L fi fe ?w1) = fst (regenerate_event_index L fi fe w)
     \<and> files (snd (regenerate_event_index L fi fe ?w1)) fe = files ?w1 fe"
  proof (cases "index_of_store L (files w fi)")
    case (Inl e)
    then have "regenerate_event_index L fi fe w = (Inl e, w)"
      using regenerate_event_index_nf_cases [OF f, of L fi fe] by simp
    then show ?thesis by simp
  next
    case (Inr mon)
    note n = regenerate_event_index_nf_index [OF f Inr, of fe]
    have i: "index_of_store L (files ?w1 fi) = Inr mon" using st Inr by simp
    note n2 = regenerate_event_index_nf_index [OF n(2) i, of fe]
    show ?thesis using n n2 by simp
  qed
  have B: "files (snd (regenerate_event_index L fi fe ?w1)) fi = files w fi"
    using regenerate_event_index_store [OF s, of L ?w1] st by simp
  have C: "\<forall>v::world. faults v = [] \<and> files v fi = files w fi
            \<and> fst (regenerate_event_index L fi fe w) = Inr () \<longrightarrow>
            files (snd (regenerate_event_index L fi fe v)) fe = files ?w1 fe"
  proof (intro allI impI)
    fix v :: world assume v: "faults v = [] \<and> files v fi = files w fi
            \<and> fst (regenerate_event_index L fi fe w) = Inr ()"
    show "files (snd (regenerate_event_index L fi fe v)) fe = files ?w1 fe"
    proof (cases "index_of_store L (files w fi)")
      case (Inl e)
      then have "regenerate_event_index L fi fe w = (Inl e, w)"
        using regenerate_event_index_nf_cases [OF f, of L fi fe] by simp
      with v show ?thesis by simp
    next
      case (Inr mon)
      have fv: "faults v = []" using v by simp
      have iv: "index_of_store L (files v fi) = Inr mon" using v Inr by simp
      show ?thesis
        using regenerate_event_index_nf_index(1) [OF f Inr, of fe]
          regenerate_event_index_nf_index(1) [OF fv iv, of fe] by simp
    qed
  qed
  from A B C show "fst (regenerate_event_index L fi fe ?w1) = fst (regenerate_event_index L fi fe w)
     \<and> files (snd (regenerate_event_index L fi fe ?w1)) fe = files ?w1 fe
     \<and> files (snd (regenerate_event_index L fi fe ?w1)) fi = files w fi
     \<and> (\<forall>v::world. faults v = [] \<and> files v fi = files w fi
            \<and> fst (regenerate_event_index L fi fe w) = Inr () \<longrightarrow>
            files (snd (regenerate_event_index L fi fe v)) fe = files ?w1 fe)" by simp
qed

lemma index_of_store_example:
  "index_of_store demo_lib (files world0 store_path) = Inr index_before"
proof -
  have "index_loop demo_lib [line_a @ [LF], line_bad @ [LF], line_b @ [LF]] [] = Inr index_before"
    by (simp add: demo_lib_def record_path_def bind_exn_def rec_a_def rec_b_def
        py_eq_def py_dict_set_def index_before_def)
  then show ?thesis using text_lines_store by (simp add: index_of_store_def world0_def)
qed

theorem regenerate_event_index_idempotent_witness:
  "faults world0 = [] \<and> separate_files store_path index_path
   \<and> fst (regenerate_event_index demo_lib store_path index_path world0) = Inr ()
   \<and> files (snd (regenerate_event_index demo_lib store_path index_path world0)) index_path
        = Some (dump_dict demo_lib index_before)
   \<and> fst (regenerate_event_index demo_lib store_path index_path
             (snd (regenerate_event_index demo_lib store_path index_path world0))) = Inr ()
   \<and> files (snd (regenerate_event_index demo_lib store_path index_path
             (snd (regenerate_event_index demo_lib store_path index_path world0)))) index_path
        = Some (dump_dict demo_lib index_before)"
proof -
  have f: "faults world0 = []" by (simp add: world0_def)
  have s: "separate_files store_path index_path" by (simp add: separate_files_def)
  note n = regenerate_event_index_nf_index [OF f index_of_store_example, of index_path]
  from regenerate_event_index_idempotent [of world0 store_path index_path demo_lib] f s n
  show ?thesis by simp
qed

section \<open>Pruning of the history log\<close>

lemma prune_loop_filter:
  "prune_loop L ex als kept0 = Inr kept \<Longrightarrow>
     kept = kept0 @ filter (\<lambda>a. \<not> expired L ex a) als"
proof (induction als arbitrary: kept0)
  case Nil
  then show ?case by simp
next
  case (Cons a rest)
  show ?case
  proof (cases "alert_time L a")
    case (Inl e)
    then have ne: "\<not> expired L ex a" by (simp add: expired_def)
    from Cons.prems Inl have "prune_loop L ex rest (kept0 @ [a]) = Inr kept"
      by (auto split: if_splits)
    from Cons.IH [OF this] ne show ?thesis by simp
  next
    case (Inr t)
    show ?thesis
    proof (cases t)
      case (Aware z)
      with Cons.prems Inr show ?thesis by simp
    next
      case (Naive z)
      show ?thesis
      proof (cases "z \<ge> ex")
        case True
        then have ne: "\<not> expired L ex a" using Inr Naive by (simp add: expired_def)
        from Cons.prems Inr Naive True have "prune_loop L ex rest (kept0 @ [a]) = Inr kept" by simp
        from Cons.IH [OF this] ne show ?thesis by simp
      next
        case False
        then have e: "expired L ex a" using Inr Naive by (simp add: expired_def)
        from Cons.prems Inr Naive False have "prune_loop L ex rest kept0 = Inr kept" by simp
        from Cons.IH [OF this] e show ?thesis by simp
      qed
    qed
  qed
qed

lemma sys_read_all_eff:
  assumes "sys_read_all p w = (r, w')"
  shows "files w' = files w" "trace w' = trace w" "same_env w w'" "clock w' = clock w"
  using assms
  by (auto simp: sys_read_all_def take_fault_def same_env_def split: fault.splits list.splits)

lemma load_json_eff:
  assumes "load_json L p w = (r, w')"
  shows "files w' = files w" "trace w' = trace w" "same_env w w'"
proof -
  obtain r1 w1 where s: "sys_read_all p w = (r1, w1)" by (cases "sys_read_all p w")
  have "w' = w1" using assms s by (auto simp: load_json_def split: option.splits)
  then show "files w' = files w" "trace w' = trace w" "same_env w w'"
    using sys_read_all_eff [OF s] by simp_all
qed

lemma load_json_nf:
  "faults w = [] \<Longrightarrow> files w p = Some c \<Longrightarrow> loads L c = Some j \<Longrightarrow> load_json L p w = (Inr j, w)"
  by (simp add: load_json_def sys_read_all_def take_fault_def)

lemma load_json_Inr:
  assumes "load_json L p w = (Inr j, w')"
  shows "\<exists>c. files w p = Some c \<and> loads L c = Some j"
  using assms
  by (auto simp: load_json_def sys_read_all_def take_fault_def
      split: fault.splits list.splits option.splits)

lemma delete_old_log_history_result:
  "fst (delete_old_log_history L file n w) \<noteq> Inr (JInt k)"
proof (cases "file_exists w file")
  case False
  then show ?thesis by (simp add: delete_old_log_history_def)
next
  case True
  obtain r1 w1 where l: "load_json L file w = (r1, w1)" by (cases "load_json L file w")
  show ?thesis
  proof (cases r1)
    case (Inl e)
    then show ?thesis using True l by (simp add: delete_old_log_history_def)
  next
    case (Inr all_alerts)
    show ?thesis
    proof (cases "minus_years L (clock w1) n")
      case (Inl e)
      then show ?thesis using True l Inr by (simp add: delete_old_log_history_def)
    next
      case ex: (Inr ex)
      show ?thesis
      proof (cases "py_iter all_alerts")
        case (Inl e)
        then show ?thesis using True l Inr ex by (simp add: delete_old_log_history_def)
      next
        case entries: (Inr entries)
        show ?thesis
        proof (cases "prune_loop L ex entries []")
          case (Inl e)
          then show ?thesis using True l Inr ex entries by (simp add: delete_old_log_history_def)
        next
          case kept: (Inr kept)
          obtain ok w2 where a: "atomic_write_text file (dumps_indent L (JArr kept)) w1 = (ok, w2)"
            by (cases "atomic_write_text file (dumps_indent L (JArr kept)) w1")
          show ?thesis using True l Inr ex entries kept a
            by (cases ok) (simp_all add: delete_old_log_history_def)
        qed
      qed
    qed
  qed
qed

lemma left_alone_same:
  "files w' = files w \<Longrightarrow> left_alone file w w'"
  by (simp add: left_alone_def)

lemma delete_old_log_history_outcome:
  assumes "delete_old_log_history L file n w = (r, w')"
  shows "(left_alone file w w'
          \<and> (stdout w' = stdout w \<or> stdout w' = stdout w @ [MsgErrCleaningHistory]))
       \<or> (\<exists>c all_alerts entries ex.
            files w file = Some c \<and> loads L c = Some all_alerts
            \<and> minus_years L (clock w) n = Inr ex \<and> py_iter all_alerts = Inr entries
            \<and> r = Inr JNull
            \<and> text_rewrite file
                 (dumps_indent L (JArr (filter (\<lambda>a. \<not> expired L ex a) entries))) w w'
            \<and> stdout w' = stdout w @ [MsgDeleted (int (length entries)
                 - int (length (filter (\<lambda>a. \<not> expired L ex a) entries)))])"
proof (cases "file_exists w file")
  case False
  with assms have "w' = w" by (simp add: delete_old_log_history_def)
  then show ?thesis by (simp add: left_alone_def)
next
  case True
  obtain r1 w1 where l: "load_json L file w = (r1, w1)" by (cases "load_json L file w")
  note le = load_json_eff [OF l]
  have e1: "files w1 = files w" "stdout w1 = stdout w" "trace w1 = trace w" "clock w1 = clock w"
    using le by (simp_all add: same_env_def)
  have same: "w' = w1 \<Longrightarrow> ?thesis"
    using e1 by (simp add: left_alone_def)
  show ?thesis
  proof (cases r1)
    case (Inl e)
    then have "w' = w1" using assms True l by (simp add: delete_old_log_history_def)
    then show ?thesis by (rule same)
  next
    case (Inr all_alerts)
    obtain c where c: "files w file = Some c" "loads L c = Some all_alerts"
      using load_json_Inr l Inr by blast
    show ?thesis
    proof (cases "minus_years L (clock w1) n")
      case (Inl e)
      then have "w' = w1" using assms True l Inr by (simp add: delete_old_log_history_def)
      then show ?thesis by (rule same)
    next
      case ex: (Inr ex)
      show ?thesis
      proof (cases "py_iter all_alerts")
        case (Inl e)
        then have "w' = w1" using assms True l Inr ex by (simp add: delete_old_log_history_def)
        then show ?thesis by (rule same)
      next
        case entries: (Inr entries)
        show ?thesis
        proof (cases "prune_loop L ex entries []")
          case (Inl e)
          then have "w' = w1"
            using assms True l Inr ex entries by (simp add: delete_old_log_history_def)
          then show ?thesis by (rule same)
        next
          case kept: (Inr kept)
          have k: "kept = filter (\<lambda>a. \<not> expired L ex a) entries"
            using prune_loop_filter [OF kept] by simp
          obtain ok w2 where a: "atomic_write_text file (dumps_indent L (JArr kept)) w1 = (ok, w2)"
            by (cases "atomic_write_text file (dumps_indent L (JArr kept)) w1")
          note t = atomic_write_text_eff [OF a]
          have s2: "stdout w2 = stdout w"
            using t(1) e1 by (simp add: touches_def same_env_def)
          show ?thesis
          proof (cases ok)
            case False
            then have w': "w' = print MsgErrCleaningHistory w2"
              using assms True l Inr ex entries kept a by (simp add: delete_old_log_history_def)
            have "touches {file @ ''.tmp''} w1 w2" "tmp_cleaned (file @ ''.tmp'') w2"
              using t(3) False by simp_all
            then have "files w2 file = files w file" "tmp_cleaned (file @ ''.tmp'') w2"
              using touches_files_other [of "{file @ ''.tmp''}" w1 w2 "file"] e1 by simp_all
            then have "left_alone file w w'"
              using w' by (simp add: left_alone_def print_def tmp_cleaned_def)
            then show ?thesis using w' s2 by (simp add: print_def)
          next
            case T: True
            then have w': "w' = print (MsgDeleted (int (length entries) - int (length kept))) w2"
              and r: "r = Inr JNull"
              using assms True l Inr ex entries kept a
              by (simp_all add: delete_old_log_history_def)
            have "text_rewrite file (dumps_indent L (JArr kept)) w w'"
              using t(2) T w' e1 by (simp add: text_rewrite_def print_def)
            then show ?thesis using c ex e1 entries r w' s2 k by (auto simp: print_def)
          qed
        qed
      qed
    qed
  qed
qed

lemma delete_old_log_history_nf:
  assumes "faults w = []" and "files w file = Some c" and "loads L c = Some all_alerts"
    and "minus_years L (clock w) n = Inr ex"
    and "py_iter all_alerts = Inr entries"
    and "prune_loop L ex entries [] = Inr kept"
  shows "fst (delete_old_log_history L file n w) = Inr JNull"
    and "text_rewrite file (dumps_indent L (JArr kept)) w (snd (delete_old_log_history L file n w))"
    and "stdout (snd (delete_old_log_history L file n w))
           = stdout w @ [MsgDeleted (int (length entries) - int (length kept))]"
proof -
  have e: "file_exists w file" using assms(2) by (simp add: file_exists_def)
  note l = load_json_nf [OF assms(1,2,3)]
  obtain ok w2 where a: "atomic_write_text file (dumps_indent L (JArr kept)) w = (ok, w2)"
    by (cases "atomic_write_text file (dumps_indent L (JArr kept)) w")
  from atomic_write_text_nf [OF assms(1), of "file" "dumps_indent L (JArr kept)"] a have ok by simp
  have d: "delete_old_log_history L file n w
     = (Inr JNull, print (MsgDeleted (int (length entries) - int (length kept))) w2)"
    using e l assms(4,5,6) a \<open>ok\<close> by (simp add: delete_old_log_history_def)
  have s: "stdout w2 = stdout w"
    using atomic_write_text_eff(1) [OF a] by (simp add: touches_def same_env_def)
  show "fst (delete_old_log_history L file n w) = Inr JNull"
    and "text_rewrite file (dumps_indent L (JArr kept)) w (snd (delete_old_log_history L file n w))"
    and "stdout (snd (delete_old_log_history L file n w))
           = stdout w @ [MsgDeleted (int (length entries) - int (length kept))]"
    using d s atomic_write_text_eff(2) [OF a] \<open>ok\<close>
    by (simp_all add: print_def text_rewrite_def)
qed

lemma delete_old_log_history_raises:
  assumes "file_exists w file" and "load_json L file w = (Inr all_alerts, wa)"
    and "minus_years L (clock wa) n = Inl e"
  shows "delete_old_log_history L file n w = (Inl e, wa)"
  using assms by (simp add: delete_old_log_history_def)


lemma alert_time_examples:
  "alert_time demo_lib alert_new = Inr (Naive 1793707140)"
  "alert_time demo_lib alert_old = Inr (Naive 1577836800)"
  "alert_time demo_lib alert_odd = Inl ValueError"
  by (simp_all add: alert_time_def alert_new_def alert_old_def alert_odd_def demo_lib_def
      bind_exn_def)

lemma prune_loop_example:
  "prune_loop demo_lib 1730635200 [alert_new, alert_old, alert_odd] [] = Inr [alert_new, alert_odd]"
  by (simp add: alert_time_examples)

lemma world_history_simps:
  "faults world_history = []" "files world_history history_path = Some history_text"
  "clock world_history = 1793707200" "stdout world_history = []"
  by (simp_all add: world_history_def world0_def)

lemma history_distinct:
  "history_text \<noteq> line_a" "history_text \<noteq> line_b" "history_text \<noteq> line_a_email"
  "history_text \<noteq> line_bad"
  by (simp_all add: line_a_def line_b_def line_bad_def line_a_email_def history_text_def)

lemma demo_lib_history:
  "loads demo_lib history_text = Some (JArr [alert_new, alert_old, alert_odd])"
  "minus_years demo_lib 1793707200 2 = Inr 1730635200"
  "minus_years demo_lib 1793707200 3000 = Inl ValueError"
  "dumps_indent demo_lib = pretty 0"
  by (simp_all add: demo_lib_def history_distinct)



section \<open>Properties of the event processing\<close>

lemma take_fault_nf: "faults w = [] \<Longrightarrow> take_fault w = (Succeeds, w)"
  by (simp add: take_fault_def)

lemma load_baseline_eff:
  assumes "load_baseline L fw path w = (r, w')"
  shows "files w' = files w \<and> trace w' = trace w \<and> same_env w w'
        \<and> (faults w = [] \<longrightarrow> faults w' = [])"
proof (cases "py_dict_lookup (baseline_cache fw) (JStr path)")
  case (Some d)
  with assms have "w' = w" by (simp add: load_baseline_def)
  then show ?thesis by (simp add: same_env_def)
next
  case None
  show ?thesis
  proof (cases "file_exists w (monitored_files_path fw)")
    case False
    with assms None have "w' = w" by (simp add: load_baseline_def)
    then show ?thesis by (simp add: same_env_def)
  next
    case True
    obtain ls ok w1 where rd: "sys_read_lines (monitored_files_path fw) w = ((ls, ok), w1)"
      by (cases "sys_read_lines (monitored_files_path fw) w") auto
    have "w' = w1" using assms None True rd
      by (auto simp: load_baseline_def split: sum.splits option.splits)
    moreover have "faults w = [] \<longrightarrow> faults w1 = []"
      using rd by (auto simp: sys_read_lines_def take_fault_def split: option.splits)
    ultimately show ?thesis using sys_read_lines_eff [OF rd] by simp
  qed
qed

lemma load_baseline_watcher:
  assumes "load_baseline L fw path w = (Inr (old, fwa), w')"
  shows "monitored fwa = monitored fw" "monitored_files_path fwa = monitored_files_path fw"
    "event_file_path fwa = event_file_path fw"
  using assms
  by (auto simp: load_baseline_def split: option.splits if_splits prod.splits sum.splits)

lemma get_current_info_eff:
  assumes "get_current_info L path w = (r, w')"
  shows "files w' = files w" "trace w' = trace w" "same_env w w'"
    and "faults w = [] \<Longrightarrow> faults w' = []"
    and "r = deleted_stub (abspath L path) \<or> (\<exists>st. r = format_json (abspath L path) st)"
proof -
  obtain r1 w1 where l: "load_file_info L path w = (r1, w1)" by (cases "load_file_info L path w")
  have f: "faults w = [] \<Longrightarrow> faults w1 = []"
    using l by (auto simp: load_file_info_def Let_def take_fault_def split: option.splits)
  have s: "r1 = Inr info \<Longrightarrow> \<exists>st. info = format_json (abspath L path) st" for info
    using l by (auto simp: load_file_info_def Let_def split: prod.splits fault.splits option.splits)
  have w: "w' = w \<or> w' = w1" using assms l
    by (auto simp: get_current_info_def Let_def split: if_splits sum.splits)
  then show "files w' = files w" "trace w' = trace w" "same_env w w'"
    using load_file_info_eff [OF l] by (auto simp: same_env_def)
  show "faults w = [] \<Longrightarrow> faults w' = []" using w f by auto
  show "r = deleted_stub (abspath L path) \<or> (\<exists>st. r = format_json (abspath L path) st)"
    using assms l s by (auto simp: get_current_info_def Let_def split: if_splits sum.splits)
qed


lemma touches_env:
  assumes "touches P w w'"
  shows "alerts w' = alerts w" "stdout w' = stdout w" "stats w' = stats w" "clock w' = clock w"
  using assms by (simp_all add: touches_def same_env_def)

lemma save_log_history_eff:
  shows "q \<notin> {file, file @ ''.tmp''} \<Longrightarrow> files (save_log_history L report file w) q = files w q"
    and "alerts (save_log_history L report file w) = alerts w"
    and "stats (save_log_history L report file w) = stats w"
    and "\<exists>t. stdout (save_log_history L report file w) = stdout w @ t"
proof -
  define pre where "pre = (if file_exists w file
            then (case load_json L file w of
                    (Inr (JArr xs), w1) \<Rightarrow> (xs, w1)
                  | (r, w1) \<Rightarrow> ([], w1))
            else ([], w))"
  obtain all_reports w1 where p: "pre = (all_reports, w1)" by (cases pre)
  obtain r0 w0 where l: "load_json L file w = (r0, w0)" by (cases "load_json L file w")
  have "w1 = w \<or> w1 = w0" using p l
    by (auto simp: pre_def split: if_splits sum.splits json.splits)
  then have e1: "files w1 = files w" "same_env w w1"
    using load_json_eff [OF l] by (auto simp: same_env_def)
  obtain ok w2 where a: "atomic_write_text file (dumps_indent L (JArr (all_reports @ [report]))) w1 = (ok, w2)"
    by (cases "atomic_write_text file (dumps_indent L (JArr (all_reports @ [report]))) w1")
  note t = atomic_write_text_eff(1) [OF a]
  have s: "save_log_history L report file w = (if ok then w2 else print MsgErrSavingHistory w2)"
    using p a by (simp add: save_log_history_def pre_def [symmetric])
  show "q \<notin> {file, file @ ''.tmp''} \<Longrightarrow> files (save_log_history L report file w) q = files w q"
    using s touches_files_other [OF t, of q] e1 by (auto simp: print_def)
  show "alerts (save_log_history L report file w) = alerts w"
    using s touches_env [OF t] e1 by (auto simp: print_def same_env_def)
  show "stats (save_log_history L report file w) = stats w"
    using s touches_env [OF t] e1 by (auto simp: print_def same_env_def)
  show "\<exists>t. stdout (save_log_history L report file w) = stdout w @ t"
    using s touches_env [OF t] e1 by (auto simp: print_def same_env_def)
qed

lemma save_log_history_nf:
  assumes "faults w = []"
  shows "files (save_log_history L report file w) file
           = Some (dumps_indent L (JArr (history_entries L file w @ [report])))"
    and "faults (save_log_history L report file w) = []"
proof -
  define pre where "pre = (if file_exists w file
            then (case load_json L file w of
                    (Inr (JArr xs), w1) \<Rightarrow> (xs, w1)
                  | (r, w1) \<Rightarrow> ([], w1))
            else ([], w))"
  have l: "file_exists w file \<Longrightarrow> load_json L file w =
      ((case loads L (the (files w file)) of None \<Rightarrow> Inl ValueError | Some j \<Rightarrow> Inr j), w)"
    using assms by (auto simp: load_json_def sys_read_all_def take_fault_def file_exists_def
        split: option.splits)
  have p: "pre = (history_entries L file w, w)"
    using l by (auto simp: pre_def history_entries_def file_exists_def
        split: option.splits json.splits)
  obtain ok w2 where a: "atomic_write_text file
       (dumps_indent L (JArr (history_entries L file w @ [report]))) w = (ok, w2)"
    by (cases "atomic_write_text file (dumps_indent L (JArr (history_entries L file w @ [report]))) w")
  from atomic_write_text_nf [OF assms, of "file"
      "dumps_indent L (JArr (history_entries L file w @ [report]))"] a
  have ok and f: "faults w2 = []" by simp_all
  have s: "save_log_history L report file w = w2"
    using p a \<open>ok\<close> by (simp add: save_log_history_def pre_def [symmetric])
  show "files (save_log_history L report file w) file
           = Some (dumps_indent L (JArr (history_entries L file w @ [report])))"
    using s atomic_write_text_eff(2) [OF a] \<open>ok\<close> by simp
  show "faults (save_log_history L report file w) = []" using s f by simp
qed

lemma AlertManager_dispatch_eff:
  "files (AlertManager_dispatch report mode w) = files w"
  "stats (AlertManager_dispatch report mode w) = stats w"
  "stdout (AlertManager_dispatch report mode w) = stdout w"
  "faults (AlertManager_dispatch report mode w) = faults w"
  by (auto simp: AlertManager_dispatch_def split: json.splits)

lemma update_files_state_others:
  assumes "update_files_state L fi fe ev src dest w = (r, w')"
  shows "q \<notin> {fi, fi @ ''.tmp'', fe, fe @ ''.tmp''} \<Longrightarrow> files w' q = files w q"
    and "alerts w' = alerts w"
    and "\<exists>t. stdout w' = stdout w @ t"
proof -
  have "(q \<notin> {fi, fi @ ''.tmp'', fe, fe @ ''.tmp''} \<longrightarrow> files w' q = files w q)
      \<and> alerts w' = alerts w \<and> (\<exists>t. stdout w' = stdout w @ t)"
  proof (cases "file_exists w fi")
    case False
    with assms show ?thesis by (simp add: update_files_state_def)
  next
    case True
    define dest' where "dest' = (case dest of
                           Some d \<Rightarrow> if d \<noteq> [] then Some (abspath L d) else None
                         | None \<Rightarrow> None)"
    obtain ls ok w1 where rd: "sys_read_lines fi w = ((ls, ok), w1)"
      by (cases "sys_read_lines fi w") auto
    note re = sys_read_lines_eff [OF rd]
    obtain r2 w2 where lp: "update_loop L ev (abspath L src) dest' ls [] w1 = (r2, w2)"
      by (cases "update_loop L ev (abspath L src) dest' ls [] w1")
    note le = update_loop_eff [OF lp]
    have f2: "files w2 = files w" "alerts w2 = alerts w" "stdout w2 = stdout w"
      using le re by (simp_all add: same_env_def)
    show ?thesis
    proof (cases r2)
      case (Inl e)
      with assms True rd lp have "w' = w2"
        by (simp add: update_files_state_def Let_def dest'_def [symmetric])
      then show ?thesis using f2 by simp
    next
      case (Inr updated_lines)
      show ?thesis
      proof (cases ok)
        case False
        with assms True rd lp Inr have "w' = w2"
          by (simp add: update_files_state_def Let_def dest'_def [symmetric])
        then show ?thesis using f2 by simp
      next
        case T: True
        obtain ok3 w3 where a: "atomic_write_lines fi updated_lines w2 = (ok3, w3)"
          by (cases "atomic_write_lines fi updated_lines w2")
        note t3 = atomic_write_lines_eff(1) [OF a]
        have f3: "q \<notin> {fi, fi @ ''.tmp'', fe, fe @ ''.tmp''} \<longrightarrow> files w3 q = files w q"
          "alerts w3 = alerts w" "stdout w3 = stdout w"
          using touches_files_other [OF t3, of q] touches_env [OF t3] f2 by auto
        show ?thesis
        proof (cases ok3)
          case False
          then have "w' = print MsgErrUpdatingState w3"
            using assms True rd lp Inr T a
            by (auto simp: update_files_state_def Let_def dest'_def [symmetric])
          then show ?thesis using f3 by (simp add: print_def)
        next
          case T3: True
          obtain r4 w4 where g: "regenerate_event_index L fi fe w3 = (r4, w4)"
            by (cases "regenerate_event_index L fi fe w3")
          note t4 = regenerate_event_index_touches [OF g]
          have f4: "q \<notin> {fi, fi @ ''.tmp'', fe, fe @ ''.tmp''} \<longrightarrow> files w4 q = files w q"
            "alerts w4 = alerts w" "stdout w4 = stdout w"
            using touches_files_other [OF t4, of q] touches_env [OF t4] f3 by auto
          have "w' = w4 \<or> w' = print MsgErrRegenerating w4"
            using assms True rd lp Inr T a T3 g
            by (cases r4) (auto simp: update_files_state_def Let_def dest'_def [symmetric])
          then show ?thesis using f4 by (auto simp: print_def)
        qed
      qed
    qed
  qed
  then show "q \<notin> {fi, fi @ ''.tmp'', fe, fe @ ''.tmp''} \<Longrightarrow> files w' q = files w q"
    and "alerts w' = alerts w"
    and "\<exists>t. stdout w' = stdout w @ t" by simp_all
qed

lemma update_cache_eff:
  assumes "update_cache L fw ev path old_state w = (r, fw', w')"
  shows "files w' = files w" "alerts w' = alerts w" "stdout w' = stdout w"
proof -
  obtain nb w1 where g: "get_current_info L path w = (nb, w1)"
    by (cases "get_current_info L path w")
  have "w' = w \<or> w' = w1" using assms g
    by (auto simp: update_cache_def split: if_splits sum.splits)
  then show "files w' = files w" "alerts w' = alerts w" "stdout w' = stdout w"
    using get_current_info_eff(1,3) [OF g] by (auto simp: same_env_def)
qed

lemma report_of_current_info:
  assumes "r = deleted_stub p \<or> (\<exists>st. r = format_json p st)"
  shows "\<exists>report. report_of L ev path mode r ch w = Inr report"
  using assms by (auto simp: report_of_def deleted_stub_def format_json_def bind_exn_def)

lemma AlertManager_dispatch_alerts:
  "alerts v = alerts v' \<Longrightarrow>
     alerts (AlertManager_dispatch report mode v) = alerts (AlertManager_dispatch report mode v')"
  by (auto simp: AlertManager_dispatch_def split: json.splits)

lemma history_entries_files:
  "files v = files v' \<Longrightarrow> history_entries L file v = history_entries L file v'"
  by (simp add: history_entries_def)

lemma handle_event_unchanged:
  assumes lb: "load_baseline L fw path (print (MsgEventDetected ev path) w)
                 = (Inr (Some old_state, fwa), wa)"
    and tr: "truthy old_state"
    and gc: "get_current_info L path wa = (new_state, wb)"
    and cm: "compare_metadata old_state new_state = Inr []"
    and ev: "ev \<noteq> ''delete''"
  shows "handle_event L fw ev path w = (Inr (), fwa, wb)"
  using lb tr gc cm ev by (simp add: handle_event_def)

lemma handle_event_prelude:
  assumes lb: "load_baseline L fw path (print (MsgEventDetected ev path) w) = (r, wa)"
    and gc: "get_current_info L path wa = (new_state, wb)"
  shows "files wb = files w" "alerts wb = alerts w" "trace wb = trace w"
    "stdout wb = stdout w @ [MsgEventDetected ev path]" "faults w = [] \<Longrightarrow> faults wb = []"
proof -
  note a = load_baseline_eff [OF lb]
  note b = get_current_info_eff [OF gc]
  show "files wb = files w" using a b(1) by (simp add: print_def)
  show "alerts wb = alerts w" using a b(3) by (simp add: print_def same_env_def)
  show "trace wb = trace w" using a b(2) by (simp add: print_def)
  show "stdout wb = stdout w @ [MsgEventDetected ev path]"
    using a b(3) by (simp add: print_def same_env_def)
  show "faults w = [] \<Longrightarrow> faults wb = []" using a b(4) by (simp add: print_def)
qed

lemma handle_event_reported:
  assumes lb: "load_baseline L fw path (print (MsgEventDetected ev path) w)
                 = (Inr (Some old_state, fwa), wa)"
    and tr: "truthy old_state"
    and gc: "get_current_info L path wa = (new_state, wb)"
    and cm: "compare_metadata old_state new_state = Inr changes"
    and go: "changes \<noteq> [] \<or> ev = ''delete''"
    and am: "alert_mode_of fwa path = Inr mode"
    and rp: "report_of L ev path mode new_state changes wb = Inr report"
    and ha: "history_apart fw"
  shows "files (snd (snd (handle_event L fw ev path w))) alert_history_file
           = files (save_log_history L report alert_history_file wb) alert_history_file"
    and "alerts (snd (snd (handle_event L fw ev path w)))
           = alerts (AlertManager_dispatch report mode w)"
proof -
  let ?h = alert_history_file
  define wc where "wc = save_log_history L report ?h wb"
  define wd where "wd = AlertManager_dispatch report mode wc"
  note pw = load_baseline_watcher [OF lb]
  obtain re we where u: "update_files_state L (monitored_files_path fwa) (event_file_path fwa)
      ev path None wd = (re, we)"
    by (cases "update_files_state L (monitored_files_path fwa) (event_file_path fwa) ev path None wd")
  obtain rf fwf wf where c: "update_cache L fwa ev path old_state we = (rf, fwf, wf)"
    by (cases "update_cache L fwa ev path old_state we")
  have ne: "\<not> (changes = [] \<and> ev \<noteq> ''delete'')" using go by auto
  have h: "handle_event L fw ev path w =
      (case re of Inl e \<Rightarrow> (Inl e, fwa, we) | Inr x \<Rightarrow> (rf, fwf, wf))"
    using lb tr gc cm ne am rp u c
    by (cases re) (simp_all add: handle_event_def bind_exn_def Let_def wc_def [symmetric]
        wd_def [symmetric] del: de_Morgan_conj)
  have "files wf = files we" "alerts wf = alerts we" using update_cache_eff [OF c] by simp_all
  then have s: "files (snd (snd (handle_event L fw ev path w))) = files we"
    "alerts (snd (snd (handle_event L fw ev path w))) = alerts we"
    using h by (cases re; simp)+
  have hq: "?h \<notin> {monitored_files_path fwa, monitored_files_path fwa @ ''.tmp'',
                    event_file_path fwa, event_file_path fwa @ ''.tmp''}"
    using ha pw by (auto simp: history_apart_def)
  have "files we ?h = files wd ?h" using update_files_state_others(1) [OF u hq] .
  also have "\<dots> = files wc ?h" by (simp add: wd_def AlertManager_dispatch_eff)
  finally show "files (snd (snd (handle_event L fw ev path w))) ?h
           = files (save_log_history L report ?h wb) ?h"
    using s by (simp add: wc_def)
  have "alerts wc = alerts wb" by (simp add: wc_def save_log_history_eff)
  also have "\<dots> = alerts w" using handle_event_prelude(2) [OF lb gc] .
  finally have "alerts wd = alerts (AlertManager_dispatch report mode w)"
    unfolding wd_def by (rule AlertManager_dispatch_alerts)
  then show "alerts (snd (snd (handle_event L fw ev path w)))
           = alerts (AlertManager_dispatch report mode w)"
    using s update_files_state_others(2) [OF u] by simp
qed

text \<open>
  Claim C3. Once the change set of an event is computed and is empty, an event that is
  no \<^verbatim>\<open>delete\<close> makes \<open>handle_event\<close> return at once: the state is the one in which the
  change set was computed, in which no data file (history log, store, index) has
  changed, no alert was sent and no call that changes the file system was made since
  the entry; only the message of the detection was printed. A \<^verbatim>\<open>delete\<close> with an empty
  change set goes on to the report: when no call fails, the history log holds its
  former entries and then the report, and the alert is routed by the mode of the path.
\<close>

theorem spurious_event_dropped:
  assumes "load_baseline L fw path (print (MsgEventDetected ev path) w)
             = (Inr (Some old_state, fwa), wa)"
    and "truthy old_state"
    and "get_current_info L path wa = (new_state, wb)"
    and "compare_metadata old_state new_state = Inr []"
  shows "(ev \<noteq> ''delete'' \<longrightarrow>
            handle_event L fw ev path w = (Inr (), fwa, wb)
            \<and> files wb = files w \<and> alerts wb = alerts w \<and> trace wb = trace w
            \<and> stdout wb = stdout w @ [MsgEventDetected ev path])
       \<and> (ev = ''delete'' \<and> alert_mode_of fwa path = Inr mode \<and> history_apart fw
            \<and> faults w = [] \<longrightarrow>
            (\<exists>report. report_of L ev path mode new_state [] wb = Inr report
               \<and> files (snd (snd (handle_event L fw ev path w))) alert_history_file
                   = Some (dumps_indent L
                             (JArr (history_entries L alert_history_file w @ [report])))
               \<and> alerts (snd (snd (handle_event L fw ev path w)))
                   = alerts (AlertManager_dispatch report mode w)))"
proof -
  note p = handle_event_prelude [OF assms(1) assms(3)]
  have A: "ev \<noteq> ''delete'' \<longrightarrow>
            handle_event L fw ev path w = (Inr (), fwa, wb)
            \<and> files wb = files w \<and> alerts wb = alerts w \<and> trace wb = trace w
            \<and> stdout wb = stdout w @ [MsgEventDetected ev path]"
    using handle_event_unchanged [OF assms] p(1-4) by simp
  have B: "ev = ''delete'' \<and> alert_mode_of fwa path = Inr mode \<and> history_apart fw
            \<and> faults w = [] \<longrightarrow>
            (\<exists>report. report_of L ev path mode new_state [] wb = Inr report
               \<and> files (snd (snd (handle_event L fw ev path w))) alert_history_file
                   = Some (dumps_indent L
                             (JArr (history_entries L alert_history_file w @ [report])))
               \<and> alerts (snd (snd (handle_event L fw ev path w)))
                   = alerts (AlertManager_dispatch report mode w))"
  proof
    assume h: "ev = ''delete'' \<and> alert_mode_of fwa path = Inr mode \<and> history_apart fw
            \<and> faults w = []"
    then have d: "ev = ''delete''" and am: "alert_mode_of fwa path = Inr mode"
      and ha: "history_apart fw" and nf: "faults w = []" by simp_all
    obtain report where rp: "report_of L ev path mode new_state [] wb = Inr report"
      using report_of_current_info [OF get_current_info_eff(5) [OF assms(3)]] by blast
    have go: "[] \<noteq> ([] :: (string \<times> json) list) \<or> ev = ''delete''" using d by simp
    note r = handle_event_reported [OF assms(1) assms(2) assms(3) assms(4) go am rp ha]
    have "files (save_log_history L report alert_history_file wb) alert_history_file
        = Some (dumps_indent L (JArr (history_entries L alert_history_file wb @ [report])))"
      using save_log_history_nf(1) [OF p(5) [OF nf]] .
    then have "files (snd (snd (handle_event L fw ev path w))) alert_history_file
        = Some (dumps_indent L (JArr (history_entries L alert_history_file w @ [report])))"
      using r(1) history_entries_files [OF p(1), of L alert_history_file] by simp
    then show "\<exists>report. report_of L ev path mode new_state [] wb = Inr report
               \<and> files (snd (snd (handle_event L fw ev path w))) alert_history_file
                   = Some (dumps_indent L
                             (JArr (history_entries L alert_history_file w @ [report])))
               \<and> alerts (snd (snd (handle_event L fw ev path w)))
                   = alerts (AlertManager_dispatch report mode w)"
      using rp r(2) by blast
  qed
  show ?thesis by (rule conjI [OF A B])
qed

section \<open>Properties of the filter of the notifications\<close>

lemma update_cache_stdout:
  "stdout (snd (snd (update_cache L fw ev path old_state w))) = stdout w"
proof -
  obtain r fw' w' where c: "update_cache L fw ev path old_state w = (r, fw', w')"
    by (cases "update_cache L fw ev path old_state w")
  then show ?thesis using update_cache_eff(3) [OF c] by simp
qed

lemma handle_event_prints:
  "\<exists>t. stdout (snd (snd (handle_event L fw ev path w))) = stdout w @ MsgEventDetected ev path # t"
proof -
  let ?m = "MsgEventDetected ev path"
  obtain r wa where lb: "load_baseline L fw path (print ?m w) = (r, wa)"
    by (cases "load_baseline L fw path (print ?m w)")
  have sa: "stdout wa = stdout w @ [?m]"
    using load_baseline_eff [OF lb] by (simp add: same_env_def print_def)
  show ?thesis
  proof (cases r)
    case (Inl e)
    then show ?thesis using lb sa by (simp add: handle_event_def)
  next
    case (Inr p)
    obtain old fwa where p: "p = (old, fwa)" by (cases p)
    define old' where "old' = (case old of None \<Rightarrow> None | Some s \<Rightarrow> if truthy s then Some s else None)"
    show ?thesis
    proof (cases old')
      case None
      then show ?thesis using lb Inr p sa
        by (simp add: handle_event_def old'_def [symmetric] print_def)
    next
      case (Some old_state)
      obtain new_state wb where gc: "get_current_info L path wa = (new_state, wb)"
        by (cases "get_current_info L path wa")
      have sb: "stdout wb = stdout w @ [?m]"
        using get_current_info_eff(3) [OF gc] sa by (simp add: same_env_def)
      show ?thesis
      proof (cases "compare_metadata old_state new_state")
        case (Inl e)
        then show ?thesis using lb Inr p Some gc sb
          by (simp add: handle_event_def old'_def [symmetric])
      next
        case changes: (Inr changes)
        show ?thesis
        proof (cases "changes = [] \<and> ev \<noteq> ''delete''")
          case True
          then show ?thesis using lb Inr p Some gc sb changes
            by (simp add: handle_event_def old'_def [symmetric])
        next
          case False
          define ar where "ar = bind_exn (alert_mode_of fwa path) (\<lambda>alert_mode.
                                 bind_exn (report_of L ev path alert_mode new_state changes wb)
                                   (\<lambda>report. Inr (alert_mode, report)))"
          show ?thesis
          proof (cases ar)
            case (Inl e)
            then show ?thesis using lb Inr p Some gc sb changes False
              by (simp add: handle_event_def old'_def [symmetric] ar_def [symmetric]
                  del: de_Morgan_conj)
          next
            case mr: (Inr mr)
            obtain mode report where mr': "mr = (mode, report)" by (cases mr)
            define wc where "wc = save_log_history L report alert_history_file wb"
            define wd where "wd = AlertManager_dispatch report mode wc"
            obtain tc where sc: "stdout wc = stdout wb @ tc"
              using save_log_history_eff(4) [of L report alert_history_file wb]
              by (auto simp: wc_def)
            have sd: "stdout wd = stdout wb @ tc"
              using sc by (simp add: wd_def AlertManager_dispatch_eff)
            obtain re we where u: "update_files_state L (monitored_files_path fwa)
                (event_file_path fwa) ev path None wd = (re, we)"
              by (cases "update_files_state L (monitored_files_path fwa) (event_file_path fwa)
                    ev path None wd")
            obtain te where se: "stdout we = stdout wd @ te"
              using update_files_state_others(3) [OF u] by blast
            have h: "handle_event L fw ev path w =
                (case re of Inl e \<Rightarrow> (Inl e, fwa, we)
                 | Inr x \<Rightarrow> update_cache L fwa ev path old_state we)"
              using lb Inr p Some gc changes False mr mr' u
              by (cases re) (simp_all add: handle_event_def old'_def [symmetric]
                  ar_def [symmetric] Let_def wc_def [symmetric] wd_def [symmetric]
                  del: de_Morgan_conj)
            have "stdout (snd (snd (handle_event L fw ev path w))) = stdout we"
              using h update_cache_stdout [of L fwa ev path old_state we] by (cases re) simp_all
            then show ?thesis using se sd sb by simp
          qed
        qed
      qed
    qed
  qed
qed

lemma handle_event_not_silent: "handle_event L fw k p w \<noteq> (r, fw', w)"
proof
  assume "handle_event L fw k p w = (r, fw', w)"
  then have "stdout (snd (snd (handle_event L fw k p w))) = stdout w" by simp
  then show False using handle_event_prints [of L fw k p w] by auto
qed

lemma event_kind_table:
  "event_kind t = Some k \<Longrightarrow>
     k \<in> {''modify'', ''delete'', ''add'', ''move''} \<and> map_of EVENT_MAPPING k = Some [t]"
  by (auto simp: event_kind_def EVENT_MAPPING_def split: if_splits)

lemma Handler_dispatch_wanted:
  assumes "watch_events_listed L fw event"
  shows "wanted L fw event \<Longrightarrow> Handler_dispatch L fw event w
           = handle_event L fw (the (event_kind (event_type event))) (abspath L (src_path event)) w"
    and "\<not> wanted L fw event \<Longrightarrow> Handler_dispatch L fw event w = (Inr (), fw, w)"
proof -
  let ?p = "abspath L (src_path event)"
  show "wanted L fw event \<Longrightarrow> Handler_dispatch L fw event w
           = handle_event L fw (the (event_kind (event_type event))) ?p w"
  proof -
    assume wt: "wanted L fw event"
    obtain cfg where c: "py_dict_lookup (monitored fw) (JStr ?p) = Some cfg"
      using wt by (cases "py_dict_lookup (monitored fw) (JStr ?p)") (simp_all add: wanted_def)
    obtain k where k: "event_kind (event_type event) = Some k"
      using wt c by (cases "event_kind (event_type event)") (simp_all add: wanted_def)
    obtain xs where xs: "dict_get cfg ''watch_events'' (JArr []) = Inr (JArr xs)"
      using assms c by (auto simp: watch_events_listed_def split: sum.splits json.splits)
    have "\<exists>x \<in> set xs. py_eq x (JStr k)" using wt c k xs by (simp add: wanted_def)
    then have "str_in k (JArr xs) = Inr True" by simp
    then show ?thesis using c k xs by (simp add: Handler_dispatch_def del: str_in.simps)
  qed
  show "\<not> wanted L fw event \<Longrightarrow> Handler_dispatch L fw event w = (Inr (), fw, w)"
  proof (cases "py_dict_lookup (monitored fw) (JStr ?p)")
    case None
    then show ?thesis by (simp add: Handler_dispatch_def)
  next
    case (Some cfg)
    assume nw: "\<not> wanted L fw event"
    obtain xs where xs: "dict_get cfg ''watch_events'' (JArr []) = Inr (JArr xs)"
      using assms Some by (auto simp: watch_events_listed_def split: sum.splits json.splits)
    show ?thesis
    proof (cases "event_kind (event_type event)")
      case None
      then show ?thesis using Some xs by (simp add: Handler_dispatch_def)
    next
      case k: (Some k)
      have "k \<in> set (map fst EVENT_MAPPING)"
        using event_kind_table [OF k] by (auto simp: EVENT_MAPPING_def)
      then have "\<not> (\<exists>x \<in> set xs. py_eq x (JStr k))"
        using nw Some k xs by (simp add: wanted_def)
      then show ?thesis using Some xs k by (simp add: Handler_dispatch_def)
    qed
  qed
qed

text \<open>
  Claim C7. For a notification on a path whose watched events, when the path is
  configured, are a list: \<open>Handler.dispatch\<close> passes it to \<open>handle_event\<close>, with the
  mapped kind and the absolute path, when the path is a key of the monitored
  configuration, the kind of the backend is mapped and the mapped kind is in the list;
  otherwise it returns with the watcher and the state as they were, and nothing
  printed or raised. A call of \<open>handle_event\<close> never leaves the state as it was, so the
  two cases differ. The kinds that the chain of tests maps are \<^verbatim>\<open>modified\<close>, \<^verbatim>\<open>deleted\<close>,
  \<^verbatim>\<open>created\<close> and \<^verbatim>\<open>moved\<close>, to the kinds that \<open>EVENT_MAPPING\<close> lists for them, all among its
  five keys.
\<close>

theorem dispatch_forwards_iff_wanted:
  "(watch_events_listed L fw event \<and> wanted L fw event \<longrightarrow>
      Handler_dispatch L fw event w
        = handle_event L fw (the (event_kind (event_type event))) (abspath L (src_path event)) w)
   \<and> (watch_events_listed L fw event \<and> \<not> wanted L fw event \<longrightarrow>
        Handler_dispatch L fw event w = (Inr (), fw, w))
   \<and> handle_event L fw k p w \<noteq> (Inr (), fw, w)
   \<and> (event_kind t = Some k \<longrightarrow>
        k \<in> {''modify'', ''delete'', ''add'', ''move''} \<and> map_of EVENT_MAPPING k = Some [t]
        \<and> k \<in> set (map fst EVENT_MAPPING))
   \<and> ((\<exists>k. event_kind t = Some k) \<longleftrightarrow> t \<in> {''modified'', ''deleted'', ''created'', ''moved''})"
proof -
  have A: "watch_events_listed L fw event \<and> wanted L fw event \<longrightarrow>
      Handler_dispatch L fw event w
        = handle_event L fw (the (event_kind (event_type event))) (abspath L (src_path event)) w"
    using Handler_dispatch_wanted(1) by blast
  have B: "watch_events_listed L fw event \<and> \<not> wanted L fw event \<longrightarrow>
        Handler_dispatch L fw event w = (Inr (), fw, w)"
    using Handler_dispatch_wanted(2) by blast
  have C: "handle_event L fw k p w \<noteq> (Inr (), fw, w)" by (rule handle_event_not_silent)
  have D: "event_kind t = Some k \<longrightarrow>
        k \<in> {''modify'', ''delete'', ''add'', ''move''} \<and> map_of EVENT_MAPPING k = Some [t]
        \<and> k \<in> set (map fst EVENT_MAPPING)"
    using event_kind_table [of t k] by (auto simp: EVENT_MAPPING_def)
  have E: "(\<exists>k. event_kind t = Some k) \<longleftrightarrow> t \<in> {''modified'', ''deleted'', ''created'', ''moved''}"
    by (auto simp: event_kind_def)
  show ?thesis by (rule conjI [OF A conjI [OF B conjI [OF C conjI [OF D E]]]])
qed

lemma watched_prelude:
  "load_baseline demo_lib watcher_a ''/srv/a'' (print (MsgEventDetected ev ''/srv/a'') world_watched)
     = (Inr (Some baseline_a, watcher_a), print (MsgEventDetected ev ''/srv/a'') world_watched)"
  "truthy baseline_a"
  "get_current_info demo_lib ''/srv/a'' (print (MsgEventDetected ev ''/srv/a'') world_watched)
     = (format_json ''/srv/a'' stat_a, print (MsgEventDetected ev ''/srv/a'') world_watched)"
proof -
  show "load_baseline demo_lib watcher_a ''/srv/a'' (print (MsgEventDetected ev ''/srv/a'') world_watched)
     = (Inr (Some baseline_a, watcher_a), print (MsgEventDetected ev ''/srv/a'') world_watched)"
    by (simp add: load_baseline_def watcher_a_def py_eq_def)
  show "truthy baseline_a" by (simp add: baseline_a_def)
  have a: "abspath demo_lib ''/srv/a'' = ''/srv/a''" by (simp add: demo_lib_def)
  show "get_current_info demo_lib ''/srv/a'' (print (MsgEventDetected ev ''/srv/a'') world_watched)
     = (format_json ''/srv/a'' stat_a, print (MsgEventDetected ev ''/srv/a'') world_watched)"
    by (simp add: get_current_info_def load_file_info_def a path_exists_def print_def
        world_watched_def world0_def take_fault_def Let_def)
qed

lemma watched_unchanged:
  "compare_metadata baseline_a (format_json ''/srv/a'' stat_a) = Inr []"
  by (simp add: compare_metadata_def baseline_a_def format_json_def stat_a_def bind_exn_def
      py_eq_def AList.delete_eq)


lemma world_watched_simps:
  "faults world_watched = []" "alerts world_watched = []" "stdout world_watched = []"
  "trace world_watched = []" "files world_watched = files world0"
  "files world0 alert_history_file = None"
  by (simp_all add: world_watched_def world0_def alert_history_file_def store_path_def)

lemma watcher_a_apart: "history_apart watcher_a"
  by (simp add: history_apart_def watcher_a_def alert_history_file_def store_path_def
      index_path_def)

lemma report_a_built:
  "report_of demo_lib ''delete'' ''/srv/a'' (JStr ''system'') (format_json ''/srv/a'' stat_a) []
     (print (MsgEventDetected ''delete'' ''/srv/a'') world_watched) = Inr report_a"
  by (simp add: report_of_def format_json_def stat_a_def bind_exn_def report_texts_def
      report_a_def demo_lib_def print_def world_watched_def world0_def)

lemma alert_mode_a: "alert_mode_of watcher_a ''/srv/a'' = Inr (JStr ''system'')"
  by (simp add: alert_mode_of_def watcher_a_def config_a_def py_eq_def)

theorem spurious_event_dropped_witness:
  "handle_event demo_lib watcher_a ''modify'' ''/srv/a'' world_watched
     = (Inr (), watcher_a, print (MsgEventDetected ''modify'' ''/srv/a'') world_watched)
   \<and> files (print (MsgEventDetected ''modify'' ''/srv/a'') world_watched) = files world_watched
   \<and> alerts (print (MsgEventDetected ''modify'' ''/srv/a'') world_watched) = []
   \<and> trace (print (MsgEventDetected ''modify'' ''/srv/a'') world_watched) = []
   \<and> files (snd (snd (handle_event demo_lib watcher_a ''delete'' ''/srv/a'' world_watched)))
         alert_history_file = Some (pretty 0 (JArr [report_a]))
   \<and> alerts (snd (snd (handle_event demo_lib watcher_a ''delete'' ''/srv/a'' world_watched)))
       = [(''system'', report_a)]"
proof -
  note m = spurious_event_dropped [OF watched_prelude(1) [of "''modify''"] watched_prelude(2)
      watched_prelude(3) [of "''modify''"] watched_unchanged, where mode = "JStr ''system''"]
  note d = spurious_event_dropped [OF watched_prelude(1) [of "''delete''"] watched_prelude(2)
      watched_prelude(3) [of "''delete''"] watched_unchanged, where mode = "JStr ''system''"]
  have h: "history_entries demo_lib alert_history_file world_watched = []"
    by (simp add: history_entries_def world_watched_simps)
  have a: "alerts (AlertManager_dispatch report_a (JStr ''system'') world_watched)
      = [(''system'', report_a)]"
    by (simp add: AlertManager_dispatch_def report_a_def world_watched_simps)
  have "handle_event demo_lib watcher_a ''modify'' ''/srv/a'' world_watched
     = (Inr (), watcher_a, print (MsgEventDetected ''modify'' ''/srv/a'') world_watched)
   \<and> files (print (MsgEventDetected ''modify'' ''/srv/a'') world_watched) = files world_watched
   \<and> alerts (print (MsgEventDetected ''modify'' ''/srv/a'') world_watched) = []
   \<and> trace (print (MsgEventDetected ''modify'' ''/srv/a'') world_watched) = []"
    using m by (simp add: world_watched_simps)
  moreover have "files (snd (snd (handle_event demo_lib watcher_a ''delete'' ''/srv/a'' world_watched)))
         alert_history_file = Some (pretty 0 (JArr [report_a]))
   \<and> alerts (snd (snd (handle_event demo_lib watcher_a ''delete'' ''/srv/a'' world_watched)))
       = [(''system'', report_a)]"
    using d by (simp add: world_watched_simps(1) watcher_a_apart report_a_built alert_mode_a h a
        demo_lib_history(4))
  ultimately show ?thesis by simp
qed


lemma wanted_examples:
  "watch_events_listed demo_lib watcher_a event_modified"
  "watch_events_listed demo_lib watcher_a event_created"
  "watch_events_listed demo_lib watcher_a event_closed"
  "watch_events_listed demo_lib watcher_a event_elsewhere"
  "wanted demo_lib watcher_a event_modified"
  "\<not> wanted demo_lib watcher_a event_created"
  "\<not> wanted demo_lib watcher_a event_closed"
  "\<not> wanted demo_lib watcher_a event_elsewhere"
  by (simp_all add: watch_events_listed_def wanted_def demo_lib_def watcher_a_def config_a_def
      event_modified_def event_created_def event_closed_def event_elsewhere_def py_eq_def
      event_kind_def EVENT_MAPPING_def)

lemma event_examples:
  "event_kind (event_type event_modified) = Some ''modify''"
  "abspath demo_lib (src_path event_modified) = ''/srv/a''"
  by (simp_all add: event_kind_def event_modified_def demo_lib_def)

theorem dispatch_forwards_iff_wanted_witness:
  "watch_events_listed demo_lib watcher_a event_modified \<and> wanted demo_lib watcher_a event_modified
   \<and> Handler_dispatch demo_lib watcher_a event_modified world_watched
       = handle_event demo_lib watcher_a ''modify'' ''/srv/a'' world_watched
   \<and> handle_event demo_lib watcher_a ''modify'' ''/srv/a'' world_watched
       \<noteq> (Inr (), watcher_a, world_watched)
   \<and> watch_events_listed demo_lib watcher_a event_created \<and> \<not> wanted demo_lib watcher_a event_created
   \<and> Handler_dispatch demo_lib watcher_a event_created world_watched = (Inr (), watcher_a, world_watched)
   \<and> watch_events_listed demo_lib watcher_a event_closed \<and> \<not> wanted demo_lib watcher_a event_closed
   \<and> Handler_dispatch demo_lib watcher_a event_closed world_watched = (Inr (), watcher_a, world_watched)
   \<and> watch_events_listed demo_lib watcher_a event_elsewhere
   \<and> \<not> wanted demo_lib watcher_a event_elsewhere
   \<and> Handler_dispatch demo_lib watcher_a event_elsewhere world_watched
       = (Inr (), watcher_a, world_watched)
   \<and> event_kind ''modified'' = Some ''modify'' \<and> map_of EVENT_MAPPING ''modify'' = Some [''modified'']"
proof -
  note a = dispatch_forwards_iff_wanted [where L = demo_lib and fw = watcher_a
      and event = event_modified and w = world_watched and k = "''modify''" and p = "''/srv/a''"
      and t = "''modified''"]
  note b = dispatch_forwards_iff_wanted [where L = demo_lib and fw = watcher_a
      and event = event_created and w = world_watched and k = "''modify''" and p = "''/srv/a''"
      and t = "''modified''"]
  note c = dispatch_forwards_iff_wanted [where L = demo_lib and fw = watcher_a
      and event = event_closed and w = world_watched and k = "''modify''" and p = "''/srv/a''"
      and t = "''modified''"]
  note d = dispatch_forwards_iff_wanted [where L = demo_lib and fw = watcher_a
      and event = event_elsewhere and w = world_watched and k = "''modify''" and p = "''/srv/a''"
      and t = "''modified''"]
  have e: "event_kind ''modified'' = Some ''modify''" by (simp add: event_kind_def)
  have A: "Handler_dispatch demo_lib watcher_a event_modified world_watched
       = handle_event demo_lib watcher_a ''modify'' ''/srv/a'' world_watched
     \<and> handle_event demo_lib watcher_a ''modify'' ''/srv/a'' world_watched
       \<noteq> (Inr (), watcher_a, world_watched)
     \<and> map_of EVENT_MAPPING ''modify'' = Some [''modified'']"
    using a e by (simp add: wanted_examples event_examples)
  have B: "Handler_dispatch demo_lib watcher_a event_created world_watched
       = (Inr (), watcher_a, world_watched)"
    using b by (simp add: wanted_examples)
  have C: "Handler_dispatch demo_lib watcher_a event_closed world_watched
       = (Inr (), watcher_a, world_watched)"
    using c by (simp add: wanted_examples)
  have D: "Handler_dispatch demo_lib watcher_a event_elsewhere world_watched
       = (Inr (), watcher_a, world_watched)"
    using d by (simp add: wanted_examples)
  show ?thesis using A B C D e by (simp add: wanted_examples)
qed

end
